theory Spec2Isabelle
  imports Complex_Main "HOL-Library.Word"
begin

section \<open>Grid locking data structures of CGAL Mesh\_3\<close>

text \<open>
  A shallow embedding of \<^verbatim>\<open>Mesh_3/include/CGAL/Mesh_3/Locking_data_structures.h\<close>:
  the classes \<^verbatim>\<open>Simple_grid_locking_ds\<close> (one atomic boolean per cell),
  \<^verbatim>\<open>Simple_grid_locking_ds_with_thread_ids\<close> (one atomic owner id per cell) and
  \<^verbatim>\<open>Simple_grid_locking_ds_with_mutex\<close> (one recursive mutex per cell).

  Conventions of the model.
  \<^item> A member function is a function of the calling thread, its arguments and the
    object; it returns the updated object along with its result. One call runs without
    interleaving (the owner-id retry loop apart, see there).
  \<^item> \<^verbatim>\<open>int\<close> is 32 bits wide: a value is an \<open>int\<close>, and every sum, difference and
    product of the source is reduced with \<open>int32\<close>, so it wraps as two's complement
    arithmetic does. \<^verbatim>\<open>unsigned int\<close> is \<open>32 word\<close>.
  \<^item> \<^verbatim>\<open>double\<close> is IEEE 754 binary64 with rounding to nearest, ties to even: the
    type \<open>double\<close> below, with its infinities, its negative zero and NaN.
  \<^item> Heap arrays are lists. An access outside an array is undefined in the source; the
    model stops with \<open>Out_of_bounds\<close>.
  \<^item> A \<^verbatim>\<open>tbb::enumerable_thread_specific\<close> member is a function from threads to values:
    \<^verbatim>\<open>local()\<close> is the value at the calling thread, and the lazily run initialiser is
    the value every thread starts with.
\<close>

subsection \<open>Threads and faults\<close>

type_synonym thread = nat

datatype fault =
    Out_of_bounds          \<comment> \<open>array access outside the allocated cells\<close>
  | Bad_array_new_length   \<comment> \<open>\<^verbatim>\<open>new T[n]\<close> with negative \<open>n\<close>\<close>
  | Mutex_not_owned        \<comment> \<open>\<^verbatim>\<open>unlock()\<close> of a mutex the caller does not hold\<close>
  | Spin_unresolved        \<comment> \<open>the retry loop is still running when the modelled schedule ends\<close>

subsection \<open>Machine integers\<close>

text \<open>
  The value of an arithmetic expression of type \<^verbatim>\<open>int\<close> whose mathematical result is \<open>k\<close>:
  \<open>k\<close> itself when it lies between \<open>- 2147483648\<close> and 2147483647, and otherwise the number
  of that range congruent to \<open>k\<close> modulo \<open>2 ^ 32\<close>. (The language leaves signed overflow
  undefined; the compiled code wraps.)
\<close>

definition int32 :: "int \<Rightarrow> int" where
  "int32 k = (k + 2147483648) mod 4294967296 - 2147483648"

text \<open>\<^verbatim>\<open>num_grid_cells_per_axis*num_grid_cells_per_axis*num_grid_cells_per_axis\<close>, as the
  constructors, the initialisers of the thread-local bitmaps and
  \<^verbatim>\<open>check_if_all_tls_cells_are_unlocked\<close> compute it.\<close>

definition num_cells :: "int \<Rightarrow> int" where
  "num_cells n = int32 (int32 (n * n) * n)"

text \<open>The index \<^verbatim>\<open>k*N*N + j*N + i\<close> of the cell with grid coordinates \<open>(i, j, k)\<close>.\<close>

definition row_major :: "int \<Rightarrow> int \<Rightarrow> int \<Rightarrow> int \<Rightarrow> int" where
  "row_major n i j k = int32 (int32 (int32 (int32 (k * n) * n) + int32 (j * n)) + i)"

subsection \<open>Doubles\<close>

text \<open>
  A double is a finite number, the negative zero, an infinity, or NaN; \<open>Finite 0\<close> is the
  positive zero. The doubles proper are the \<open>Finite x\<close> with \<open>x\<close> a number that \<open>fl\<close> below
  leaves as it is; every operation returns one of them, and the statements proved for
  all values of the type hold for them in particular.
\<close>

datatype double = Finite real | Neg_zero | Pos_inf | Neg_inf | NaN

text \<open>\<open>exponent x\<close> is the integer part of the binary logarithm of \<open>\<bar>x\<bar>\<close>, found by
  halving or doubling, and \<open>- 1022\<close> for every \<open>x\<close> below the normal range.\<close>

function ilog2_up :: "real \<Rightarrow> int \<Rightarrow> int" where
  "ilog2_up x k = (if 2 \<le> x then ilog2_up (x / 2) (k + 1) else k)"
  by pat_completeness auto
termination
proof (relation "measure (\<lambda>(x, k). nat \<lceil>x\<rceil>)")
  show "wf (measure (\<lambda>(x, k). nat \<lceil>x\<rceil>))" by simp
next
  fix x :: real and k :: int
  assume a: "2 \<le> x"
  then have "x / 2 \<le> x - 1" by simp
  then have "\<lceil>x / 2\<rceil> \<le> \<lceil>x - 1\<rceil>" by (rule ceiling_mono)
  moreover have "0 < \<lceil>x\<rceil>" using a by (simp add: less_ceiling_iff)
  ultimately show "((x / 2, k + 1), x, k) \<in> measure (\<lambda>(x, k). nat \<lceil>x\<rceil>)"
    by simp
qed

declare ilog2_up.simps [simp del]

function ilog2_down :: "real \<Rightarrow> int \<Rightarrow> int" where
  "ilog2_down x k = (if x < 1 \<and> - 1022 < k then ilog2_down (2 * x) (k - 1) else k)"
  by pat_completeness auto
termination
  by (relation "measure (\<lambda>(x, k). nat (k + 1022))") auto

declare ilog2_down.simps [simp del]

definition exponent :: "real \<Rightarrow> int" where
  "exponent x = (if 1 \<le> \<bar>x\<bar> then ilog2_up \<bar>x\<bar> 0 else ilog2_down \<bar>x\<bar> 0)"

definition pow2 :: "int \<Rightarrow> real" where
  "pow2 q = (if 0 \<le> q then 2 ^ nat q else 1 / 2 ^ nat (- q))"

definition round_even :: "real \<Rightarrow> int" where
  "round_even y =
     (let f = \<lfloor>y\<rfloor>; d = y - real_of_int f
      in if d < 1 / 2 then f else if 1 / 2 < d then f + 1 else if even f then f else f + 1)"

text \<open>
  The double nearest to a real: with \<open>e\<close> the exponent of \<open>x\<close> (not below that of the
  least normal number), the multiple of \<open>2 ^ (e - 52)\<close> nearest to \<open>x\<close>, the even one of
  two that are equally near; an infinity from \<open>2 ^ 1024\<close> on, a zero of the sign of \<open>x\<close>
  when the multiple is 0.
\<close>

definition fl :: "real \<Rightarrow> double" where
  "fl x =
     (if x = 0 then Finite 0
      else
        let q = exponent x - 52;
            r = real_of_int (round_even (x / pow2 q)) * pow2 q
        in if pow2 1024 \<le> \<bar>r\<bar> then (if 0 < x then Pos_inf else Neg_inf)
           else if r = 0 then (if 0 < x then Finite 0 else Neg_zero)
           else Finite r)"

text \<open>The sign bit, the finite value, and the arithmetic of the standard: the exact
  result rounded, with the standard's rules for zeros, infinities and NaN.\<close>

fun is_neg :: "double \<Rightarrow> bool" where
  "is_neg (Finite x) = (x < 0)"
| "is_neg Neg_zero = True"
| "is_neg Pos_inf = False"
| "is_neg Neg_inf = True"
| "is_neg NaN = False"

fun is_inf :: "double \<Rightarrow> bool" where
  "is_inf Pos_inf = True"
| "is_inf Neg_inf = True"
| "is_inf d = False"

fun real_of :: "double \<Rightarrow> real" where
  "real_of (Finite x) = x"
| "real_of d = 0"

definition zero_of :: "bool \<Rightarrow> double" where
  "zero_of negative = (if negative then Neg_zero else Finite 0)"

definition inf_of :: "bool \<Rightarrow> double" where
  "inf_of negative = (if negative then Neg_inf else Pos_inf)"

definition fsub :: "double \<Rightarrow> double \<Rightarrow> double" where
  "fsub a b =
     (if a = NaN \<or> b = NaN then NaN
      else if is_inf a then (if is_inf b \<and> is_neg a = is_neg b then NaN else a)
      else if is_inf b then inf_of (\<not> is_neg b)
      else if real_of a - real_of b = 0 then zero_of (a = Neg_zero \<and> b = Finite 0)
      else fl (real_of a - real_of b))"

definition fmul :: "double \<Rightarrow> double \<Rightarrow> double" where
  "fmul a b =
     (if a = NaN \<or> b = NaN then NaN
      else if is_inf a \<or> is_inf b then
        (if (\<not> is_inf a \<and> real_of a = 0) \<or> (\<not> is_inf b \<and> real_of b = 0) then NaN
         else inf_of (is_neg a \<noteq> is_neg b))
      else if real_of a * real_of b = 0 then zero_of (is_neg a \<noteq> is_neg b)
      else fl (real_of a * real_of b))"

definition fdiv :: "double \<Rightarrow> double \<Rightarrow> double" where
  "fdiv a b =
     (if a = NaN \<or> b = NaN then NaN
      else if is_inf a then (if is_inf b then NaN else inf_of (is_neg a \<noteq> is_neg b))
      else if is_inf b then zero_of (is_neg a \<noteq> is_neg b)
      else if real_of b = 0 then
        (if real_of a = 0 then NaN else inf_of (is_neg a \<noteq> is_neg b))
      else if real_of a = 0 then zero_of (is_neg a \<noteq> is_neg b)
      else fl (real_of a / real_of b))"

text \<open>\<^verbatim>\<open>static_cast<double>\<close> of an \<^verbatim>\<open>int\<close> is exact.\<close>

definition double_of_int :: "int \<Rightarrow> double" where
  "double_of_int k = Finite (real_of_int k)"

text \<open>
  \<^verbatim>\<open>static_cast<int>\<close> of a \<^verbatim>\<open>double\<close> drops the fractional part. When the result does
  not fit an \<^verbatim>\<open>int\<close> (and for an infinity or NaN) the conversion is undefined in the
  language; the model gives what the conversion instruction of x86-64 gives, the least
  \<^verbatim>\<open>int\<close>.
\<close>

definition to_int :: "double \<Rightarrow> int" where
  "to_int d =
     (case d of
        Finite v \<Rightarrow>
          (let k = (if 0 \<le> v then \<lfloor>v\<rfloor> else \<lceil>v\<rceil>)
           in if - 2147483648 \<le> k \<and> k \<le> 2147483647 then k else - 2147483648)
      | Neg_zero \<Rightarrow> 0
      | _ \<Rightarrow> - 2147483648)"

subsection \<open>Boxes, points and the members of the classes\<close>

text \<open>
  Modelled from the spec: \<^verbatim>\<open>CGAL::Bbox_3\<close> (\<^verbatim>\<open>CGAL/Bbox_3.h\<close> is not among the
  sources). The spec describes the bounding volume as an axis-aligned box
  (xmin, ymin, zmin, xmax, ymax, zmax); the constructors read it through the six
  accessors of these names.
\<close>

datatype Bbox_3 = Bbox_3 (xmin: double) (ymin: double) (zmin: double)
                         (xmax: double) (ymax: double) (zmax: double)

text \<open>
  The template parameter \<^verbatim>\<open>P3\<close> "must provide .x(), .y(), .z()"; a point is its three
  coordinates, numbers of the point's own number type. \<^verbatim>\<open>to_double\<close> gives the double
  nearest to such a number; it is the identity on the coordinates of a point with
  \<^verbatim>\<open>double\<close> coordinates.
\<close>

datatype P3 = P3 (point_x: real) (point_y: real) (point_z: real)

definition to_double :: "real \<Rightarrow> double" where
  "to_double v = fl v"

text \<open>The data members shared by the three classes; \<open>'slot\<close> is the element type of
  \<^verbatim>\<open>m_grid\<close>.\<close>

record 'slot grid_ds =
  m_num_grid_cells_per_axis :: int
  m_xmin :: double
  m_ymin :: double
  m_zmin :: double
  m_resolution_x :: double
  m_resolution_y :: double
  m_resolution_z :: double
  m_grid :: "'slot list"
  m_tls_grids :: "thread \<Rightarrow> bool list"
  m_tls_locked_cells :: "thread \<Rightarrow> int list"

definition in_range :: "'a list \<Rightarrow> int \<Rightarrow> bool" where
  "in_range a i \<longleftrightarrow> 0 \<le> i \<and> i < int (length a)"

subsection \<open>Construction\<close>

text \<open>
  All three constructors compute \<open>num_cells\<close>, allocate \<^verbatim>\<open>m_grid\<close> with
  \<^verbatim>\<open>new T[num_cells]\<close>, fill it, and keep the minima and the resolutions. They test
  neither the number of cells per axis nor the extent of the box. \<open>construct\<close> is that
  common text, with the value \<open>free\<close> every cell is initialised to. A negative length makes
  the \<^verbatim>\<open>new\<close> expression fail; a zero length allocates an empty array; an allocation of
  positive length is taken to succeed.
\<close>

definition construct :: "'slot \<Rightarrow> Bbox_3 \<Rightarrow> int \<Rightarrow> fault + 'slot grid_ds" where
  "construct free bbox num_grid_cells_per_axis =
    (if num_cells num_grid_cells_per_axis < 0 then Inl Bad_array_new_length
     else let n = double_of_int num_grid_cells_per_axis
          in Inr \<lparr>m_num_grid_cells_per_axis = num_grid_cells_per_axis,
                  m_xmin = xmin bbox,
                  m_ymin = ymin bbox,
                  m_zmin = zmin bbox,
                  m_resolution_x = fdiv n (fsub (xmax bbox) (xmin bbox)),
                  m_resolution_y = fdiv n (fsub (ymax bbox) (ymin bbox)),
                  m_resolution_z = fdiv n (fsub (zmax bbox) (zmin bbox)),
                  m_grid = replicate (nat (num_cells num_grid_cells_per_axis)) free,
                  m_tls_grids =
                    (\<lambda>_. replicate (nat (num_cells num_grid_cells_per_axis)) False),
                  m_tls_locked_cells = (\<lambda>_. [])\<rparr>)"

definition Simple_grid_locking_ds :: "Bbox_3 \<Rightarrow> int \<Rightarrow> fault + bool grid_ds" where
  "Simple_grid_locking_ds bbox num_grid_cells_per_axis = construct False bbox num_grid_cells_per_axis"

subsection \<open>Grid index of a point\<close>

text \<open>
  The index on one axis, for instance
  \<^verbatim>\<open>static_cast<int>((to_double(point.x()) - m_xmin) * m_resolution_x)\<close> followed by
  \<^verbatim>\<open>std::max(0, std::min(index_x, m_num_grid_cells_per_axis - 1))\<close>, and the index of the
  cell. The \<^verbatim>\<open>unlock(point)\<close> of the first two classes has \<^verbatim>\<open>point.x()\<close> in place of
  \<^verbatim>\<open>to_double(point.x())\<close>: the coordinate then enters the subtraction of doubles by the
  conversion of the language, the same double.
\<close>

definition axis_index :: "int \<Rightarrow> double \<Rightarrow> double \<Rightarrow> real \<Rightarrow> int" where
  "axis_index n lo resolution coord =
     max 0 (min (to_int (fmul (fsub (to_double coord) lo) resolution)) (int32 (n - 1)))"

definition index_x :: "('slot, 'm) grid_ds_scheme \<Rightarrow> P3 \<Rightarrow> int" where
  "index_x ds point = axis_index (m_num_grid_cells_per_axis ds) (m_xmin ds) (m_resolution_x ds) (point_x point)"

definition index_y :: "('slot, 'm) grid_ds_scheme \<Rightarrow> P3 \<Rightarrow> int" where
  "index_y ds point = axis_index (m_num_grid_cells_per_axis ds) (m_ymin ds) (m_resolution_y ds) (point_y point)"

definition index_z :: "('slot, 'm) grid_ds_scheme \<Rightarrow> P3 \<Rightarrow> int" where
  "index_z ds point = axis_index (m_num_grid_cells_per_axis ds) (m_zmin ds) (m_resolution_z ds) (point_z point)"

definition grid_index :: "('slot, 'm) grid_ds_scheme \<Rightarrow> P3 \<Rightarrow> int" where
  "grid_index ds point =
     row_major (m_num_grid_cells_per_axis ds)
       (index_x ds point) (index_y ds point) (index_z ds point)"

subsection \<open>\<^verbatim>\<open>Simple_grid_locking_ds\<close>: single cells\<close>

definition try_lock :: "thread \<Rightarrow> int \<Rightarrow> bool grid_ds \<Rightarrow> fault + bool \<times> bool grid_ds" where
  "try_lock t cell_index ds =
    (if \<not> in_range (m_tls_grids ds t) cell_index then Inl Out_of_bounds
     else if m_tls_grids ds t ! nat cell_index then Inr (True, ds)
     else if \<not> in_range (m_grid ds) cell_index then Inl Out_of_bounds
     else if m_grid ds ! nat cell_index = False
       then Inr (True,
              ds\<lparr>m_grid := (m_grid ds)[nat cell_index := True],
                 m_tls_grids := (m_tls_grids ds)
                    (t := (m_tls_grids ds t)[nat cell_index := True]),
                 m_tls_locked_cells := (m_tls_locked_cells ds)
                    (t := m_tls_locked_cells ds t @ [cell_index])\<rparr>)
       else Inr (False, ds))"

definition unlock :: "thread \<Rightarrow> int \<Rightarrow> bool grid_ds \<Rightarrow> fault + bool grid_ds" where
  "unlock t cell_index ds =
    (if \<not> in_range (m_grid ds) cell_index then Inl Out_of_bounds
     else if \<not> in_range (m_tls_grids ds t) cell_index then Inl Out_of_bounds
     else Inr (ds\<lparr>m_grid := (m_grid ds)[nat cell_index := False],
                  m_tls_grids := (m_tls_grids ds)
                     (t := (m_tls_grids ds t)[nat cell_index := False])\<rparr>))"

text \<open>A caller that calls \<open>try_lock\<close> on the same cell \<open>n\<close> times in a row.\<close>

fun try_lock_times :: "nat \<Rightarrow> thread \<Rightarrow> int \<Rightarrow> bool grid_ds \<Rightarrow> fault + bool list \<times> bool grid_ds" where
  "try_lock_times 0 t c ds = Inr ([], ds)"
| "try_lock_times (Suc n) t c ds =
    (case try_lock t c ds of
       Inl e \<Rightarrow> Inl e
     | Inr (r, ds') \<Rightarrow>
        (case try_lock_times n t c ds' of
           Inl e \<Rightarrow> Inl e
         | Inr (rs, ds'') \<Rightarrow> Inr (r # rs, ds'')))"

subsection \<open>Locking the cells around a point\<close>

text \<open>
  The three nested \<^verbatim>\<open>for\<close> loops of \<^verbatim>\<open>try_lock(point, lock_radius)\<close> visit, with
  \<open>i\<close> outermost and \<open>k\<close> innermost, the cells \<^verbatim>\<open>k*N*N + j*N + i\<close>; their bounds do not
  change while the loops run. \<open>region_cells\<close> is the sequence of \<^verbatim>\<open>index_to_lock\<close> in the
  order of the visit.
\<close>

definition region_cells :: "int \<Rightarrow> int \<Rightarrow> int \<Rightarrow> int \<Rightarrow> int \<Rightarrow> int list" where
  "region_cells n ix iy iz lock_radius =
     concat (map (\<lambda>i.
       concat (map (\<lambda>j.
         map (\<lambda>k. row_major n i j k)
           [max 0 (int32 (iz - lock_radius)) .. min (int32 (n - 1)) (int32 (iz + lock_radius))])
         [max 0 (int32 (iy - lock_radius)) .. min (int32 (n - 1)) (int32 (iy + lock_radius))]))
       [max 0 (int32 (ix - lock_radius)) .. min (int32 (n - 1)) (int32 (ix + lock_radius))])"

text \<open>The rollback loop over \<^verbatim>\<open>locked_cells_tmp\<close>; \<open>ul\<close> is the class's \<^verbatim>\<open>unlock(int)\<close>.\<close>

fun unlock_cells :: "(int \<Rightarrow> 's \<Rightarrow> fault + 's) \<Rightarrow> int list \<Rightarrow> 's \<Rightarrow> fault + 's" where
  "unlock_cells ul [] ds = Inr ds"
| "unlock_cells ul (c # cs) ds =
     (case ul c ds of Inl e \<Rightarrow> Inl e | Inr ds' \<Rightarrow> unlock_cells ul cs ds')"

text \<open>
  The body of the innermost loop, run over the cells still to visit; \<open>tlk\<close> is the class's
  \<^verbatim>\<open>try_lock(int)\<close> and \<open>locked_cells_tmp\<close> the vector of the same name.
\<close>

fun lock_cells :: "(int \<Rightarrow> 's \<Rightarrow> fault + bool \<times> 's) \<Rightarrow> (int \<Rightarrow> 's \<Rightarrow> fault + 's) \<Rightarrow>
    int list \<Rightarrow> int list \<Rightarrow> 's \<Rightarrow> fault + bool \<times> 's" where
  "lock_cells tlk ul [] locked_cells_tmp ds = Inr (True, ds)"
| "lock_cells tlk ul (index_to_lock # rest) locked_cells_tmp ds =
     (case tlk index_to_lock ds of
        Inl e \<Rightarrow> Inl e
      | Inr (ok, ds') \<Rightarrow>
          if ok then lock_cells tlk ul rest (locked_cells_tmp @ [index_to_lock]) ds'
          else (case unlock_cells ul locked_cells_tmp ds' of
                  Inl e \<Rightarrow> Inl e
                | Inr ds'' \<Rightarrow> Inr (False, ds'')))"

text \<open>\<^verbatim>\<open>try_lock(point, lock_radius)\<close>, the text of which is the same in the three classes.\<close>

definition try_lock_around :: "(int \<Rightarrow> ('slot, 'm) grid_ds_scheme \<Rightarrow> fault + bool \<times> ('slot, 'm) grid_ds_scheme) \<Rightarrow>
    (int \<Rightarrow> ('slot, 'm) grid_ds_scheme \<Rightarrow> fault + ('slot, 'm) grid_ds_scheme) \<Rightarrow>
    P3 \<Rightarrow> int \<Rightarrow> ('slot, 'm) grid_ds_scheme \<Rightarrow> fault + (bool \<times> int) \<times> ('slot, 'm) grid_ds_scheme" where
  "try_lock_around tlk ul point lock_radius ds =
    (let index = grid_index ds point in
     if lock_radius = 0 then
       (case tlk index ds of Inl e \<Rightarrow> Inl e | Inr (ok, ds') \<Rightarrow> Inr ((ok, index), ds'))
     else
       (case lock_cells tlk ul
               (region_cells (m_num_grid_cells_per_axis ds)
                  (index_x ds point) (index_y ds point) (index_z ds point) lock_radius)
               [] ds of
          Inl e \<Rightarrow> Inl e
        | Inr (ok, ds') \<Rightarrow> Inr ((ok, index), ds')))"

definition try_lock_P3 :: "thread \<Rightarrow> P3 \<Rightarrow> int \<Rightarrow> bool grid_ds \<Rightarrow> fault + (bool \<times> int) \<times> bool grid_ds" where
  "try_lock_P3 t point lock_radius ds = try_lock_around (try_lock t) (unlock t) point lock_radius ds"

definition unlock_P3 :: "thread \<Rightarrow> P3 \<Rightarrow> bool grid_ds \<Rightarrow> fault + bool grid_ds" where
  "unlock_P3 t point ds = unlock t (grid_index ds point) ds"

subsection \<open>Releasing and checking the cells of a thread\<close>

text \<open>The loop of \<^verbatim>\<open>unlock_all_tls_locked_cells\<close> over the thread's vector of locked cells.\<close>

fun unlock_owned :: "(int \<Rightarrow> ('slot, 'm) grid_ds_scheme \<Rightarrow> fault + ('slot, 'm) grid_ds_scheme) \<Rightarrow>
    thread \<Rightarrow> int list \<Rightarrow> ('slot, 'm) grid_ds_scheme \<Rightarrow> fault + ('slot, 'm) grid_ds_scheme" where
  "unlock_owned ul t [] ds = Inr ds"
| "unlock_owned ul t (cell_index # rest) ds =
     (if \<not> in_range (m_tls_grids ds t) cell_index then Inl Out_of_bounds
      else if m_tls_grids ds t ! nat cell_index = True then
        (case ul cell_index ds of Inl e \<Rightarrow> Inl e | Inr ds' \<Rightarrow> unlock_owned ul t rest ds')
      else unlock_owned ul t rest ds)"

definition unlock_all_with :: "(int \<Rightarrow> ('slot, 'm) grid_ds_scheme \<Rightarrow> fault + ('slot, 'm) grid_ds_scheme) \<Rightarrow>
    thread \<Rightarrow> ('slot, 'm) grid_ds_scheme \<Rightarrow> fault + ('slot, 'm) grid_ds_scheme" where
  "unlock_all_with ul t ds =
     (case unlock_owned ul t (m_tls_locked_cells ds t) ds of
        Inl e \<Rightarrow> Inl e
      | Inr ds' \<Rightarrow> Inr (ds'\<lparr>m_tls_locked_cells := (m_tls_locked_cells ds')(t := [])\<rparr>))"

definition unlock_all_tls_locked_cells :: "thread \<Rightarrow> bool grid_ds \<Rightarrow> fault + bool grid_ds" where
  "unlock_all_tls_locked_cells t ds = unlock_all_with (unlock t) t ds"

text \<open>The loop of \<^verbatim>\<open>check_if_all_tls_cells_are_unlocked\<close>, from \<open>i\<close> on.\<close>

function check_from :: "bool list \<Rightarrow> int \<Rightarrow> int \<Rightarrow> fault + bool" where
  "check_from tls cells i =
     (if i < cells then
        (if \<not> in_range tls i then Inl Out_of_bounds
         else if tls ! nat i = False then check_from tls cells (i + 1)
         else Inr False)
      else Inr True)"
  by pat_completeness auto
termination
  by (relation "measure (\<lambda>(tls, cells, i). nat (cells - i))") auto

declare check_from.simps [simp del]

definition check_if_all_tls_cells_are_unlocked :: "thread \<Rightarrow> ('slot, 'm) grid_ds_scheme \<Rightarrow> fault + bool" where
  "check_if_all_tls_cells_are_unlocked t ds =
     check_from (m_tls_grids ds t) (num_cells (m_num_grid_cells_per_axis ds)) 0"

subsection \<open>\<^verbatim>\<open>Simple_grid_locking_ds_with_thread_ids\<close>\<close>

text \<open>
  The class adds to the common members the thread-local \<^verbatim>\<open>m_tls_thread_ids\<close>. Its
  initialiser increments the function-static counter \<^verbatim>\<open>last_id\<close> when a thread first
  asks for its id, so this member is modelled with its lazy initialisation: \<open>None\<close> until
  the thread's first \<^verbatim>\<open>local()\<close>. The counter is a field of the model.

  \<open>schedule\<close> is not a member of the class. It stands for the other threads: its head is
  the list of stores (cell, value) they make to \<^verbatim>\<open>m_grid\<close> while the calling thread is
  in its next \<^verbatim>\<open>std::this_thread::yield()\<close>.
\<close>

record ids_ds = "32 word grid_ds" +
  m_tls_thread_ids :: "thread \<Rightarrow> 32 word option"
  last_id :: "32 word"
  schedule :: "(nat \<times> 32 word) list list"

definition Simple_grid_locking_ds_with_thread_ids ::
    "32 word \<Rightarrow> Bbox_3 \<Rightarrow> int \<Rightarrow> fault + ids_ds" where
  "Simple_grid_locking_ds_with_thread_ids static_last_id bbox num_grid_cells_per_axis =
     (case construct 0 bbox num_grid_cells_per_axis of
        Inl e \<Rightarrow> Inl e
      | Inr ds \<Rightarrow> Inr (grid_ds.extend ds
          \<lparr>m_tls_thread_ids = (\<lambda>_. None), last_id = static_last_id, schedule = []\<rparr>))"

definition thread_id_local :: "thread \<Rightarrow> ids_ds \<Rightarrow> 32 word \<times> ids_ds" where
  "thread_id_local t ds =
     (case m_tls_thread_ids ds t of
        Some this_thread_id \<Rightarrow> (this_thread_id, ds)
      | None \<Rightarrow>
          (last_id ds + 1,
           ds\<lparr>m_tls_thread_ids := (m_tls_thread_ids ds)(t \<mapsto> last_id ds + 1),
              last_id := last_id ds + 1\<rparr>))"

definition apply_writes :: "(nat \<times> 32 word) list \<Rightarrow> 32 word list \<Rightarrow> 32 word list" where
  "apply_writes ws g = foldl (\<lambda>a (i, v). a[i := v]) g ws"

definition yield :: "ids_ds \<Rightarrow> ids_ds" where
  "yield ds =
     (case schedule ds of
        [] \<Rightarrow> ds
      | ws # later \<Rightarrow> ds\<lparr>m_grid := apply_writes ws (m_grid ds), schedule := later\<rparr>)"

text \<open>The condition of the \<^verbatim>\<open>do ... while\<close> loop.\<close>

definition retry :: "bool \<Rightarrow> 32 word \<Rightarrow> 32 word \<Rightarrow> bool" where
  "retry ret old_value this_thread_id \<longleftrightarrow> ret = False \<and> old_value < this_thread_id"

text \<open>
  The \<^verbatim>\<open>do ... while\<close> loop: compare-and-swap of the slot from 0 to the caller's id, the
  ledger update or the yield, then the test. A retry needs the other threads to have
  run: when the schedule is used up the loop is \<open>Spin_unresolved\<close>.
\<close>

function ids_try_lock_loop :: "thread \<Rightarrow> int \<Rightarrow> 32 word \<Rightarrow> ids_ds \<Rightarrow> fault + bool \<times> ids_ds" where
  "ids_try_lock_loop t cell_index this_thread_id ds =
    (if \<not> in_range (m_grid ds) cell_index then Inl Out_of_bounds
     else
       let old_value = m_grid ds ! nat cell_index in
       if old_value = 0 then
         Inr (True,
              ds\<lparr>m_grid := (m_grid ds)[nat cell_index := this_thread_id],
                 m_tls_grids := (m_tls_grids ds)
                    (t := (m_tls_grids ds t)[nat cell_index := True]),
                 m_tls_locked_cells := (m_tls_locked_cells ds)
                    (t := m_tls_locked_cells ds t @ [cell_index])\<rparr>)
       else if retry False old_value this_thread_id then
         (if schedule ds = [] then Inl Spin_unresolved
          else ids_try_lock_loop t cell_index this_thread_id (yield ds))
       else Inr (False, yield ds))"
  by pat_completeness auto
termination
  by (relation "measure (\<lambda>(t, cell_index, this_thread_id, ds). length (schedule ds))")
     (auto simp: yield_def split: list.splits)

declare ids_try_lock_loop.simps [simp del]

definition ids_try_lock :: "thread \<Rightarrow> int \<Rightarrow> ids_ds \<Rightarrow> fault + bool \<times> ids_ds" where
  "ids_try_lock t cell_index ds =
    (if \<not> in_range (m_tls_grids ds t) cell_index then Inl Out_of_bounds
     else if m_tls_grids ds t ! nat cell_index then Inr (True, ds)
     else case thread_id_local t ds of
            (this_thread_id, ds') \<Rightarrow> ids_try_lock_loop t cell_index this_thread_id ds')"

definition ids_unlock :: "thread \<Rightarrow> int \<Rightarrow> ids_ds \<Rightarrow> fault + ids_ds" where
  "ids_unlock t cell_index ds =
    (if \<not> in_range (m_grid ds) cell_index then Inl Out_of_bounds
     else if \<not> in_range (m_tls_grids ds t) cell_index then Inl Out_of_bounds
     else Inr (ds\<lparr>m_grid := (m_grid ds)[nat cell_index := 0],
                  m_tls_grids := (m_tls_grids ds)
                     (t := (m_tls_grids ds t)[nat cell_index := False])\<rparr>))"

definition ids_try_lock_P3 :: "thread \<Rightarrow> P3 \<Rightarrow> int \<Rightarrow> ids_ds \<Rightarrow> fault + (bool \<times> int) \<times> ids_ds" where
  "ids_try_lock_P3 t point lock_radius ds =
     try_lock_around (ids_try_lock t) (ids_unlock t) point lock_radius ds"

definition ids_unlock_P3 :: "thread \<Rightarrow> P3 \<Rightarrow> ids_ds \<Rightarrow> fault + ids_ds" where
  "ids_unlock_P3 t point ds = ids_unlock t (grid_index ds point) ds"

definition ids_unlock_all_tls_locked_cells :: "thread \<Rightarrow> ids_ds \<Rightarrow> fault + ids_ds" where
  "ids_unlock_all_tls_locked_cells t ds = unlock_all_with (ids_unlock t) t ds"

subsection \<open>\<^verbatim>\<open>Simple_grid_locking_ds_with_mutex\<close>\<close>

text \<open>
  Modelled from the spec: \<^verbatim>\<open>tbb::recursive_mutex\<close>, a type of the Threading Building
  Blocks library, whose code is not among the sources. The spec has each cell hold a
  reentrant mutex, acquired with a non-blocking try-acquire that fails when the mutex is
  contended, and calls unlocking a cell that the caller does not hold undefined. So a
  mutex is free, or held by one thread a positive number of times; \<^verbatim>\<open>try_lock()\<close>
  succeeds on a free mutex and on one the caller holds, and fails otherwise;
  \<^verbatim>\<open>unlock()\<close> undoes one acquisition of the caller, and is the fault
  \<open>Mutex_not_owned\<close> when the caller does not hold the mutex.
\<close>

datatype recursive_mutex = Unlocked | Locked_by thread nat

definition recursive_mutex_try_lock :: "thread \<Rightarrow> recursive_mutex \<Rightarrow> bool \<times> recursive_mutex" where
  "recursive_mutex_try_lock t mtx =
     (case mtx of
        Unlocked \<Rightarrow> (True, Locked_by t 1)
      | Locked_by owner depth \<Rightarrow>
          if owner = t then (True, Locked_by t (depth + 1)) else (False, mtx))"

definition recursive_mutex_unlock :: "thread \<Rightarrow> recursive_mutex \<Rightarrow> fault + recursive_mutex" where
  "recursive_mutex_unlock t mtx =
     (case mtx of
        Unlocked \<Rightarrow> Inl Mutex_not_owned
      | Locked_by owner depth \<Rightarrow>
          if owner \<noteq> t then Inl Mutex_not_owned
          else if depth \<le> 1 then Inr Unlocked
          else Inr (Locked_by t (depth - 1)))"

definition Simple_grid_locking_ds_with_mutex :: "Bbox_3 \<Rightarrow> int \<Rightarrow> fault + recursive_mutex grid_ds" where
  "Simple_grid_locking_ds_with_mutex bbox num_grid_cells_per_axis =
     construct Unlocked bbox num_grid_cells_per_axis"

definition mutex_try_lock :: "thread \<Rightarrow> int \<Rightarrow> recursive_mutex grid_ds \<Rightarrow>
    fault + bool \<times> recursive_mutex grid_ds" where
  "mutex_try_lock t cell_index ds =
    (if \<not> in_range (m_tls_grids ds t) cell_index then Inl Out_of_bounds
     else if m_tls_grids ds t ! nat cell_index then Inr (True, ds)
     else if \<not> in_range (m_grid ds) cell_index then Inl Out_of_bounds
     else case recursive_mutex_try_lock t (m_grid ds ! nat cell_index) of
            (locked, mtx) \<Rightarrow>
              if locked = True then
                Inr (True,
                     ds\<lparr>m_grid := (m_grid ds)[nat cell_index := mtx],
                        m_tls_grids := (m_tls_grids ds)
                           (t := (m_tls_grids ds t)[nat cell_index := True]),
                        m_tls_locked_cells := (m_tls_locked_cells ds)
                           (t := m_tls_locked_cells ds t @ [cell_index])\<rparr>)
              else Inr (False, ds\<lparr>m_grid := (m_grid ds)[nat cell_index := mtx]\<rparr>))"

definition mutex_unlock :: "thread \<Rightarrow> int \<Rightarrow> recursive_mutex grid_ds \<Rightarrow> fault + recursive_mutex grid_ds" where
  "mutex_unlock t cell_index ds =
    (if \<not> in_range (m_grid ds) cell_index then Inl Out_of_bounds
     else case recursive_mutex_unlock t (m_grid ds ! nat cell_index) of
            Inl e \<Rightarrow> Inl e
          | Inr mtx \<Rightarrow>
              if \<not> in_range (m_tls_grids ds t) cell_index then Inl Out_of_bounds
              else Inr (ds\<lparr>m_grid := (m_grid ds)[nat cell_index := mtx],
                           m_tls_grids := (m_tls_grids ds)
                              (t := (m_tls_grids ds t)[nat cell_index := False])\<rparr>))"

definition mutex_try_lock_P3 :: "thread \<Rightarrow> P3 \<Rightarrow> int \<Rightarrow> recursive_mutex grid_ds \<Rightarrow>
    fault + (bool \<times> int) \<times> recursive_mutex grid_ds" where
  "mutex_try_lock_P3 t point lock_radius ds =
     try_lock_around (mutex_try_lock t) (mutex_unlock t) point lock_radius ds"

definition mutex_unlock_P3 :: "thread \<Rightarrow> P3 \<Rightarrow> recursive_mutex grid_ds \<Rightarrow> fault + recursive_mutex grid_ds" where
  "mutex_unlock_P3 t point ds = mutex_unlock t (grid_index ds point) ds"

definition mutex_unlock_all_tls_locked_cells :: "thread \<Rightarrow> recursive_mutex grid_ds \<Rightarrow>
    fault + recursive_mutex grid_ds" where
  "mutex_unlock_all_tls_locked_cells t ds = unlock_all_with (mutex_unlock t) t ds"

subsection \<open>Sequences of calls by one thread\<close>

datatype call =
    Try_lock int
  | Try_lock_P3 P3 int
  | Unlock int
  | Unlock_P3 P3
  | Unlock_all_tls_locked_cells
  | Check_if_all_tls_cells_are_unlocked

datatype reply = Success bool | Success_and_index bool int | Void

text \<open>One call of thread \<open>t\<close> on a class whose \<^verbatim>\<open>try_lock(int)\<close> and \<^verbatim>\<open>unlock(int)\<close> are
  \<open>tlk\<close> and \<open>ul\<close>.\<close>

fun perform :: "(int \<Rightarrow> ('slot, 'm) grid_ds_scheme \<Rightarrow> fault + bool \<times> ('slot, 'm) grid_ds_scheme) \<Rightarrow>
    (int \<Rightarrow> ('slot, 'm) grid_ds_scheme \<Rightarrow> fault + ('slot, 'm) grid_ds_scheme) \<Rightarrow>
    thread \<Rightarrow> call \<Rightarrow> ('slot, 'm) grid_ds_scheme \<Rightarrow> fault + reply \<times> ('slot, 'm) grid_ds_scheme" where
  "perform tlk ul t (Try_lock c) ds =
     (case tlk c ds of Inl e \<Rightarrow> Inl e | Inr (ok, ds') \<Rightarrow> Inr (Success ok, ds'))"
| "perform tlk ul t (Try_lock_P3 point lock_radius) ds =
     (case try_lock_around tlk ul point lock_radius ds of
        Inl e \<Rightarrow> Inl e
      | Inr ((ok, index), ds') \<Rightarrow> Inr (Success_and_index ok index, ds'))"
| "perform tlk ul t (Unlock c) ds =
     (case ul c ds of Inl e \<Rightarrow> Inl e | Inr ds' \<Rightarrow> Inr (Void, ds'))"
| "perform tlk ul t (Unlock_P3 point) ds =
     (case ul (grid_index ds point) ds of Inl e \<Rightarrow> Inl e | Inr ds' \<Rightarrow> Inr (Void, ds'))"
| "perform tlk ul t Unlock_all_tls_locked_cells ds =
     (case unlock_all_with ul t ds of Inl e \<Rightarrow> Inl e | Inr ds' \<Rightarrow> Inr (Void, ds'))"
| "perform tlk ul t Check_if_all_tls_cells_are_unlocked ds =
     (case check_if_all_tls_cells_are_unlocked t ds of
        Inl e \<Rightarrow> Inl e
      | Inr unlocked \<Rightarrow> Inr (Success unlocked, ds))"

fun run :: "('c \<Rightarrow> 's \<Rightarrow> fault + reply \<times> 's) \<Rightarrow> 'c list \<Rightarrow> 's \<Rightarrow> fault + reply list \<times> 's" where
  "run step [] ds = Inr ([], ds)"
| "run step (c # cs) ds =
     (case step c ds of
        Inl e \<Rightarrow> Inl e
      | Inr (r, ds') \<Rightarrow>
          (case run step cs ds' of
             Inl e \<Rightarrow> Inl e
           | Inr (rs, ds'') \<Rightarrow> Inr (r # rs, ds'')))"

definition binary_call :: "thread \<Rightarrow> call \<Rightarrow> bool grid_ds \<Rightarrow> fault + reply \<times> bool grid_ds" where
  "binary_call t = perform (try_lock t) (unlock t) t"

text \<open>A call of any thread, named with the call: a sequence of these is an interleaving
  of the calls of several threads.\<close>

definition binary_step :: "thread \<times> call \<Rightarrow> bool grid_ds \<Rightarrow> fault + reply \<times> bool grid_ds" where
  "binary_step tc = binary_call (fst tc) (snd tc)"



subsection \<open>Notions used in the statements\<close>

text \<open>Thread \<open>t\<close> holds cell \<open>c\<close> according to its ledger.\<close>

definition holds :: "thread \<Rightarrow> int \<Rightarrow> ('slot, 'm) grid_ds_scheme \<Rightarrow> bool" where
  "holds t c ds \<longleftrightarrow> in_range (m_tls_grids ds t) c \<and> m_tls_grids ds t ! nat c"

text \<open>What a constructor leaves of the box \<open>bbox\<close> and the number \<open>n\<close> of cells per axis:
  the members it computes from them, which no member function writes, and the length of
  the lock table, which no member function changes.\<close>

definition built :: "Bbox_3 \<Rightarrow> int \<Rightarrow> ('slot, 'm) grid_ds_scheme \<Rightarrow> bool" where
  "built bbox n ds \<longleftrightarrow>
     m_num_grid_cells_per_axis ds = n \<and>
     m_xmin ds = xmin bbox \<and> m_ymin ds = ymin bbox \<and> m_zmin ds = zmin bbox \<and>
     m_resolution_x ds = fdiv (double_of_int n) (fsub (xmax bbox) (xmin bbox)) \<and>
     m_resolution_y ds = fdiv (double_of_int n) (fsub (ymax bbox) (ymin bbox)) \<and>
     m_resolution_z ds = fdiv (double_of_int n) (fsub (zmax bbox) (zmin bbox)) \<and>
     int (length (m_grid ds)) = num_cells n"

text \<open>The lock table and the bitmap of \<open>t\<close> have the \<open>num_cells\<close> elements the constructor
  gives them.\<close>

definition sized :: "thread \<Rightarrow> ('slot, 'm) grid_ds_scheme \<Rightarrow> bool" where
  "sized t ds \<longleftrightarrow>
     int (length (m_grid ds)) = num_cells (m_num_grid_cells_per_axis ds) \<and>
     length (m_tls_grids ds t) = length (m_grid ds)"

text \<open>
  The ledger of \<open>t\<close> is in order: the arrays have their size, the vector of locked cells
  holds indices of the grid only, and every cell marked in the bitmap is in the vector.
\<close>

definition ledger_ok :: "thread \<Rightarrow> ('slot, 'm) grid_ds_scheme \<Rightarrow> bool" where
  "ledger_ok t ds \<longleftrightarrow>
     sized t ds \<and>
     (\<forall>c \<in> set (m_tls_locked_cells ds t). in_range (m_tls_grids ds t) c) \<and>
     (\<forall>i < length (m_tls_grids ds t).
        m_tls_grids ds t ! i \<longrightarrow> int i \<in> set (m_tls_locked_cells ds t))"

text \<open>The array \<open>a\<close> after \<open>false\<close> has been stored at each index of \<open>cs\<close>.\<close>

definition cleared :: "int list \<Rightarrow> bool list \<Rightarrow> bool list" where
  "cleared cs a = foldl (\<lambda>b c. b[nat c := False]) a cs"

subsection \<open>Comparing the three classes\<close>

text \<open>Two results agree up to \<open>R\<close>: both are the same fault, or both return the same value
  and objects related by \<open>R\<close>.\<close>

definition agree :: "('x \<Rightarrow> 'y \<Rightarrow> bool) \<Rightarrow> fault + 'a \<times> 'x \<Rightarrow> fault + 'a \<times> 'y \<Rightarrow> bool" where
  "agree R p q \<longleftrightarrow>
     (\<exists>e. p = Inl e \<and> q = Inl e) \<or> (\<exists>a x y. p = Inr (a, x) \<and> q = Inr (a, y) \<and> R x y)"

definition agree_void :: "('x \<Rightarrow> 'y \<Rightarrow> bool) \<Rightarrow> fault + 'x \<Rightarrow> fault + 'y \<Rightarrow> bool" where
  "agree_void R p q \<longleftrightarrow>
     (\<exists>e. p = Inl e \<and> q = Inl e) \<or> (\<exists>x y. p = Inr x \<and> q = Inr y \<and> R x y)"









subsection \<open>Scenarios\<close>

text \<open>A grid of 2 x 2 x 2 unit cells, on which thread 0 locks cell 0 and then thread 1
  locks cell 4.\<close>

definition box2 :: Bbox_3 where
  "box2 = Bbox_3 (Finite 0) (Finite 0) (Finite 0) (Finite 2) (Finite 2) (Finite 2)"

definition ds2 :: "bool grid_ds" where
  "ds2 = projr (Simple_grid_locking_ds box2 2)"

definition ds2_a :: "bool grid_ds" where
  "ds2_a = snd (projr (try_lock 0 0 ds2))"

definition ds2_ab :: "bool grid_ds" where
  "ds2_ab = snd (projr (try_lock 1 4 ds2_a))"

text \<open>Then thread 0 asks for the cells within radius 1 of the point (1/2, 1/2, 1/2), which lies
  in cell 0.\<close>

definition ds2_ab_failed :: "bool grid_ds" where
  "ds2_ab_failed = snd (projr (try_lock_P3 0 (P3 (1/2) (1/2) (1/2)) 1 ds2_ab))"

text \<open>On the grid where thread 0 holds cell 0, thread 0 asks for the same neighbourhood
  before any other thread has locked a cell.\<close>

definition ds2_locked :: "bool grid_ds" where
  "ds2_locked = snd (projr (try_lock_P3 0 (P3 (1/2) (1/2) (1/2)) 1 ds2_a))"

text \<open>The box from (0,0,0) to (10,10,10): with 10 cells per axis, with none, and with
  1626, a number whose cube does not fit an \<^verbatim>\<open>int\<close>.\<close>

definition box10 :: Bbox_3 where
  "box10 = Bbox_3 (Finite 0) (Finite 0) (Finite 0) (Finite 10) (Finite 10) (Finite 10)"

definition ds10 :: "bool grid_ds" where
  "ds10 = projr (Simple_grid_locking_ds box10 10)"

definition ds10_0 :: "bool grid_ds" where
  "ds10_0 = projr (Simple_grid_locking_ds box10 0)"

definition ds10_1626 :: "bool grid_ds" where
  "ds10_1626 = projr (Simple_grid_locking_ds box10 1626)"

text \<open>The same grid with owner ids, in a process whose id counter is still 0: thread 0 locks
  cell 0 and gets id 1, then thread 1 locks cell 1 and gets id 2.\<close>

definition ids2 :: ids_ds where
  "ids2 = projr (Simple_grid_locking_ds_with_thread_ids 0 box2 2)"

definition ids2_a :: ids_ds where
  "ids2_a = snd (projr (ids_try_lock 0 0 ids2))"

definition ids2_ab :: ids_ds where
  "ids2_ab = snd (projr (ids_try_lock 1 1 ids2_a))"

text \<open>The same grid with one mutex per cell.\<close>

definition mutex2 :: "recursive_mutex grid_ds" where
  "mutex2 = projr (Simple_grid_locking_ds_with_mutex box2 2)"

section \<open>Properties\<close>

subsection \<open>The scenarios, evaluated\<close>

text \<open>The rules that evaluate the arithmetic of doubles on given numbers.\<close>

lemmas double_eval = fsub_def fmul_def fdiv_def to_int_def fl_def exponent_def ilog2_up.simps
  ilog2_down.simps pow2_def round_even_def Let_def zero_of_def inf_of_def double_of_int_def
  to_double_def

lemma ds2_eq:
  "ds2 = \<lparr>m_num_grid_cells_per_axis = 2,
           m_xmin = Finite 0, m_ymin = Finite 0, m_zmin = Finite 0,
           m_resolution_x = Finite 1, m_resolution_y = Finite 1, m_resolution_z = Finite 1,
           m_grid = replicate 8 False,
           m_tls_grids = (\<lambda>_. replicate 8 False),
           m_tls_locked_cells = (\<lambda>_. [])\<rparr>"
  by (simp add: ds2_def Simple_grid_locking_ds_def construct_def box2_def num_cells_def
        int32_def double_eval)

lemma ds2_a_eq:
  "ds2_a = \<lparr>m_num_grid_cells_per_axis = 2,
           m_xmin = Finite 0, m_ymin = Finite 0, m_zmin = Finite 0,
           m_resolution_x = Finite 1, m_resolution_y = Finite 1, m_resolution_z = Finite 1,
           m_grid = [True, False, False, False, False, False, False, False],
           m_tls_grids = (\<lambda>_. replicate 8 False)
              (0 := [True, False, False, False, False, False, False, False]),
           m_tls_locked_cells = (\<lambda>_. [])(0 := [0])\<rparr>"
  by (simp add: ds2_a_def ds2_eq try_lock_def in_range_def eval_nat_numeral)

lemma ds2_ab_eq:
  "ds2_ab = \<lparr>m_num_grid_cells_per_axis = 2,
           m_xmin = Finite 0, m_ymin = Finite 0, m_zmin = Finite 0,
           m_resolution_x = Finite 1, m_resolution_y = Finite 1, m_resolution_z = Finite 1,
           m_grid = [True, False, False, False, True, False, False, False],
           m_tls_grids = (\<lambda>_. replicate 8 False)
              (0 := [True, False, False, False, False, False, False, False],
               1 := [False, False, False, False, True, False, False, False]),
           m_tls_locked_cells = (\<lambda>_. [])(0 := [0], 1 := [4])\<rparr>"
  by (simp add: ds2_ab_def ds2_a_eq try_lock_def in_range_def eval_nat_numeral)

subsection \<open>Single cells\<close>

lemma try_lock_held:
  "in_range (m_tls_grids ds t) c \<Longrightarrow> m_tls_grids ds t ! nat c \<Longrightarrow> try_lock t c ds = Inr (True, ds)"
  by (simp add: try_lock_def)

text \<open>
  C4. A cell whose ledger bit is set for the calling thread can be locked again by that
  thread any number of times: every call returns true, and the object (lock table,
  ledger bitmaps and locked-cell lists) is the one before the calls.
\<close>

theorem try_lock_reentrant:
  assumes "in_range (m_tls_grids ds t) c" and "m_tls_grids ds t ! nat c"
  shows "try_lock_times n t c ds = Inr (replicate n True, ds)"
  using assms by (induction n) (simp_all add: try_lock_held)

theorem try_lock_reentrant_witness:
  "in_range (m_tls_grids ds2_a 0) 0 \<and> m_tls_grids ds2_a 0 ! nat 0 \<and>
   try_lock_times 3 0 0 ds2_a = Inr ([True, True, True], ds2_a)"
  using try_lock_reentrant [of ds2_a 0 0 3]
  by (simp add: ds2_a_eq in_range_def eval_nat_numeral)

text \<open>
  C7. When \<open>try_lock\<close> on a single cell returns false, the object it returns is the object
  it was called on: the lock table, the ledger bitmaps and the locked-cell lists are as
  before. This happens only for a cell that the caller's ledger does not hold and whose
  slot is taken.
\<close>

theorem try_lock_failure_unchanged:
  assumes "try_lock t c ds = Inr (False, ds')"
  shows "ds' = ds \<and> m_grid ds' = m_grid ds \<and> m_tls_grids ds' = m_tls_grids ds
         \<and> m_tls_locked_cells ds' = m_tls_locked_cells ds
         \<and> \<not> holds t c ds \<and> m_grid ds ! nat c = True"
  using assms by (auto simp: try_lock_def holds_def split: if_splits)

theorem try_lock_failure_unchanged_witness:
  "try_lock 1 0 ds2_a = Inr (False, ds2_a) \<and> \<not> holds 1 0 ds2_a \<and> m_grid ds2_a ! nat 0 = True"
  using try_lock_failure_unchanged [of 1 0 ds2_a ds2_a]
  by (simp add: ds2_a_eq try_lock_def in_range_def eval_nat_numeral)

text \<open>
  C10. \<open>unlock\<close> of a cell of the grid never tests who holds it: it stores false in the
  slot and clears the caller's ledger bit, and leaves the other threads' ledgers alone.
  So when another thread \<open>u\<close> holds the cell, the slot is free afterwards although the
  ledger of \<open>u\<close> still marks the cell, and the caller can lock the cell that \<open>u\<close> believes
  it holds.
\<close>

theorem unlock_unconditional:
  assumes "in_range (m_grid ds) c" and "in_range (m_tls_grids ds t) c"
  shows "\<exists>ds'. unlock t c ds = Inr ds'
           \<and> m_grid ds' = (m_grid ds)[nat c := False]
           \<and> m_grid ds' ! nat c = False
           \<and> m_tls_grids ds' t = (m_tls_grids ds t)[nat c := False]
           \<and> \<not> holds t c ds'
           \<and> (\<forall>u. u \<noteq> t \<longrightarrow> m_tls_grids ds' u = m_tls_grids ds u)
           \<and> (\<forall>u. u \<noteq> t \<and> holds u c ds \<longrightarrow>
                  holds u c ds' \<and>
                  (\<exists>ds''. try_lock t c ds' = Inr (True, ds'') \<and> holds t c ds'' \<and> holds u c ds''))"
  using assms by (auto simp: unlock_def holds_def try_lock_def in_range_def)

theorem unlock_unconditional_witness:
  "in_range (m_grid ds2_a) 0 \<and> in_range (m_tls_grids ds2_a 1) 0
   \<and> holds 0 0 ds2_a \<and> \<not> holds 1 0 ds2_a \<and> m_grid ds2_a ! nat 0 = True
   \<and> m_grid (projr (unlock 1 0 ds2_a)) ! nat 0 = False
   \<and> holds 0 0 (projr (unlock 1 0 ds2_a))"
  using unlock_unconditional [of ds2_a 0 1]
  by (simp add: ds2_a_eq unlock_def holds_def in_range_def eval_nat_numeral)

subsection \<open>Arithmetic on \<^verbatim>\<open>int\<close>\<close>

text \<open>A value that fits an \<^verbatim>\<open>int\<close> is not changed by \<open>int32\<close>; the products of a number of cells
  per axis between \<open>- 1290\<close> and 1290 fit.\<close>

lemma int32_id: "- 2147483648 \<le> k \<Longrightarrow> k \<le> 2147483647 \<Longrightarrow> int32 k = k"
  by (simp add: int32_def)

lemma int32_range: "- 2147483648 \<le> int32 k \<and> int32 k \<le> 2147483647"
proof -
  have "0 \<le> (k + 2147483648) mod 4294967296" by simp
  moreover have "(k + 2147483648) mod 4294967296 < 4294967296" by simp
  ultimately show ?thesis unfolding int32_def by linarith
qed

lemma int32_mod: "int32 k mod 4294967296 = k mod 4294967296"
proof -
  have "int32 k mod 4294967296 = ((k + 2147483648) mod 4294967296 - 2147483648 mod 4294967296) mod 4294967296"
    unfolding int32_def by simp
  also have "\<dots> = (k + 2147483648 - 2147483648) mod 4294967296"
    by (rule mod_diff_eq)
  finally show ?thesis by simp
qed

lemma int32_cong: "a mod 4294967296 = b mod 4294967296 \<Longrightarrow> int32 a = int32 b"
  unfolding int32_def by (metis mod_add_left_eq)

lemma num_cells_cube: "num_cells n = int32 (n * n * n)"
  unfolding num_cells_def
  by (rule int32_cong) (metis int32_mod mod_mult_left_eq)

lemma square_bound:
  fixes n :: int
  assumes "- 1290 \<le> n" and "n \<le> 1290"
  shows "0 \<le> n * n \<and> n * n \<le> 1664100"
proof -
  have "\<bar>n\<bar> * \<bar>n\<bar> \<le> 1290 * 1290" using assms by (intro mult_mono) auto
  then show ?thesis by simp
qed

lemma cube_bound:
  fixes n :: int
  assumes "- 1290 \<le> n" and "n \<le> 1290"
  shows "- 2146689000 \<le> n * n * n \<and> n * n * n \<le> 2146689000"
proof -
  have "\<bar>n * n\<bar> * \<bar>n\<bar> \<le> 1664100 * 1290"
    using assms square_bound [OF assms] by (intro mult_mono) auto
  then have "\<bar>n * n * n\<bar> \<le> 2146689000" by (simp add: abs_mult)
  then show ?thesis by linarith
qed

lemma num_cells_small: "- 1290 \<le> n \<Longrightarrow> n \<le> 1290 \<Longrightarrow> num_cells n = n * n * n"
  unfolding num_cells_cube using cube_bound [of n] by (intro int32_id) auto

lemma cube_negative: "(n::int) * n * n < 0 \<longleftrightarrow> n < 0"
  by (auto simp: mult_less_0_iff zero_less_mult_iff)
lemma cell_bound:
  fixes n :: int
  assumes "0 \<le> i" "i \<le> n - 1" "0 \<le> j" "j \<le> n - 1" "0 \<le> k" "k \<le> n - 1"
  shows "0 \<le> k * n * n + j * n + i \<and> k * n * n + j * n + i \<le> n * n * n - 1"
proof -
  have n: "0 \<le> n" using assms by linarith
  have a: "k * (n * n) \<le> (n - 1) * (n * n)"
    using assms n by (intro mult_right_mono) auto
  have b: "j * n \<le> (n - 1) * n"
    using assms n by (intro mult_right_mono) auto
  have c: "0 \<le> k * (n * n)" "0 \<le> j * n" using assms n by auto
  have d: "(n - 1) * (n * n) + (n - 1) * n + (n - 1) = n * n * n - 1"
    by (simp add: algebra_simps)
  have e: "k * n * n = k * (n * n)" by simp
  show ?thesis unfolding e using a b c d assms(1,2) by linarith
qed

lemma row_major_small:
  fixes n :: int
  assumes n: "1 \<le> n" "n \<le> 1290"
    and i: "0 \<le> i" "i \<le> n - 1" and j: "0 \<le> j" "j \<le> n - 1" and k: "0 \<le> k" "k \<le> n - 1"
  shows "row_major n i j k = k * n * n + j * n + i"
proof -
  have c: "n * n * n \<le> 2146689000" using cube_bound [of n] n by simp
  have q: "0 \<le> n * n" using n by simp
  have kn: "0 \<le> k * n" "0 \<le> j * n" using n j k by simp_all
  have knn: "0 \<le> k * n * n" using kn n by simp
  have t: "k * n * n + j * n + i \<le> n * n * n - 1"
    using cell_bound [OF i j k] by simp
  have a: "k * n \<le> k * n * n" using kn(1) n(1) by (simp add: mult_le_cancel_left1)
  have 1: "int32 (k * n) = k * n"
    using kn knn a t i j c by (intro int32_id) linarith+
  have 2: "int32 (k * n * n) = k * n * n"
    using kn knn t i j c by (intro int32_id) linarith+
  have 3: "int32 (j * n) = j * n"
    using kn knn t i j c by (intro int32_id) linarith+
  have 4: "int32 (k * n * n + j * n) = k * n * n + j * n"
    using kn knn t i j c by (intro int32_id) linarith+
  have 5: "int32 (k * n * n + j * n + i) = k * n * n + j * n + i"
    using kn knn t i j c by (intro int32_id) linarith+
  show ?thesis by (simp only: row_major_def 1 2 3 4 5)
qed

lemma int32_pred: "1 \<le> n \<Longrightarrow> n \<le> 1290 \<Longrightarrow> int32 (n - 1) = n - 1"
  by (intro int32_id) linarith+

lemma axis_index_range:
  "1 \<le> n \<Longrightarrow> n \<le> 1290 \<Longrightarrow> 0 \<le> axis_index n lo res v \<and> axis_index n lo res v \<le> n - 1"
  by (simp add: axis_index_def int32_pred)

lemma grid_index_small:
  assumes "1 \<le> m_num_grid_cells_per_axis ds" and "m_num_grid_cells_per_axis ds \<le> 1290"
  shows "grid_index ds p = index_z ds p * m_num_grid_cells_per_axis ds * m_num_grid_cells_per_axis ds
           + index_y ds p * m_num_grid_cells_per_axis ds + index_x ds p"
  unfolding grid_index_def index_x_def index_y_def index_z_def
  using assms by (intro row_major_small) (simp_all only: axis_index_range)

lemma grid_index_bound:
  assumes "1 \<le> m_num_grid_cells_per_axis ds" and "m_num_grid_cells_per_axis ds \<le> 1290"
  shows "0 \<le> grid_index ds p \<and>
         grid_index ds p \<le> m_num_grid_cells_per_axis ds * m_num_grid_cells_per_axis ds
                             * m_num_grid_cells_per_axis ds - 1"
  unfolding grid_index_small [OF assms] index_x_def index_y_def index_z_def
  using assms by (intro cell_bound) (simp_all only: axis_index_range)

lemma region_cells_bound:
  assumes "c \<in> set (region_cells n ix iy iz r)" and n: "1 \<le> n" "n \<le> 1290"
  shows "0 \<le> c \<and> c < n * n * n"
proof -
  from assms(1) obtain i j k where c: "c = row_major n i j k"
    and b: "0 \<le> i" "i \<le> int32 (n - 1)" "0 \<le> j" "j \<le> int32 (n - 1)" "0 \<le> k" "k \<le> int32 (n - 1)"
    by (auto simp: region_cells_def)
  from b have b': "0 \<le> i" "i \<le> n - 1" "0 \<le> j" "j \<le> n - 1" "0 \<le> k" "k \<le> n - 1"
    by (simp_all only: int32_pred [OF n])
  show ?thesis
    unfolding c row_major_small [OF n b'] using cell_bound [OF b'] by simp
qed

subsection \<open>Construction\<close>

lemma constructed:
  assumes "construct free bbox n = Inr ds"
  shows "ds = \<lparr>m_num_grid_cells_per_axis = n,
                  m_xmin = xmin bbox, m_ymin = ymin bbox, m_zmin = zmin bbox,
                  m_resolution_x = fdiv (double_of_int n) (fsub (xmax bbox) (xmin bbox)),
                  m_resolution_y = fdiv (double_of_int n) (fsub (ymax bbox) (ymin bbox)),
                  m_resolution_z = fdiv (double_of_int n) (fsub (zmax bbox) (zmin bbox)),
                  m_grid = replicate (nat (num_cells n)) free,
                  m_tls_grids = (\<lambda>_. replicate (nat (num_cells n)) False),
                  m_tls_locked_cells = (\<lambda>_. [])\<rparr>"
    and "0 \<le> num_cells n"
  using assms by (auto simp: construct_def Let_def split: if_splits)

lemma construct_built:
  assumes "construct free bbox n = Inr ds"
  shows "built bbox n ds"
  using constructed(2) [OF assms] by (simp add: constructed(1) [OF assms] built_def)

text \<open>
  C3 (as amended). The constructor tests neither argument; it fails only in the
  allocation of the lock table, when the number of cells it has computed is negative.
  For a number \<open>n\<close> of cells per axis from \<open>- 1290\<close> to \<open>- 1\<close> it fails. For \<open>n\<close> from 0 to 1290
  and every bounding box, of zero extent or not, it returns an object: the lock table
  has \<open>n * n * n\<close> free slots (none for \<open>n = 0\<close>), all ledgers are clear, and the resolution
  of an axis is the quotient of \<open>n\<close> by the extent, in the arithmetic of doubles. Outside
  these bounds the product \<open>n * n * n\<close> does not fit an \<^verbatim>\<open>int\<close>, and it is the product
  reduced to 32 bits in two's complement that decides: negative, the constructor fails;
  otherwise it returns an object with that many slots.
\<close>

theorem construct_unchecked:
  "(- 1290 \<le> n \<and> n < 0 \<longrightarrow> Simple_grid_locking_ds bbox n = Inl Bad_array_new_length) \<and>
   (0 \<le> n \<and> n \<le> 1290 \<longrightarrow> (\<exists>ds. Simple_grid_locking_ds bbox n = Inr ds
        \<and> m_num_grid_cells_per_axis ds = n
        \<and> m_resolution_x ds = fdiv (double_of_int n) (fsub (xmax bbox) (xmin bbox))
        \<and> m_resolution_y ds = fdiv (double_of_int n) (fsub (ymax bbox) (ymin bbox))
        \<and> m_resolution_z ds = fdiv (double_of_int n) (fsub (zmax bbox) (zmin bbox))
        \<and> m_grid ds = replicate (nat (n * n * n)) False
        \<and> (\<forall>t. m_tls_grids ds t = replicate (nat (n * n * n)) False)
        \<and> (\<forall>t. m_tls_locked_cells ds t = []))) \<and>
   ((n * n * n + 2147483648) mod 4294967296 < 2147483648
      \<longrightarrow> Simple_grid_locking_ds bbox n = Inl Bad_array_new_length) \<and>
   (2147483648 \<le> (n * n * n + 2147483648) mod 4294967296
      \<longrightarrow> (\<exists>ds. Simple_grid_locking_ds bbox n = Inr ds
        \<and> m_num_grid_cells_per_axis ds = n
        \<and> m_grid ds = replicate (nat ((n * n * n + 2147483648) mod 4294967296 - 2147483648)) False
        \<and> (\<forall>t. m_tls_grids ds t
               = replicate (nat ((n * n * n + 2147483648) mod 4294967296 - 2147483648)) False)
        \<and> (\<forall>t. m_tls_locked_cells ds t = [])))"
proof -
  have w: "num_cells n = (n * n * n + 2147483648) mod 4294967296 - 2147483648"
    by (simp add: num_cells_cube int32_def)
  have s: "- 1290 \<le> n \<and> n \<le> 1290 \<longrightarrow> num_cells n = n * n * n"
    by (simp add: num_cells_small)
  have 1: "- 1290 \<le> n \<and> n < 0 \<longrightarrow> Simple_grid_locking_ds bbox n = Inl Bad_array_new_length"
    using s by (simp add: Simple_grid_locking_ds_def construct_def cube_negative)
  have 2: "0 \<le> n \<and> n \<le> 1290 \<longrightarrow> (\<exists>ds. Simple_grid_locking_ds bbox n = Inr ds
        \<and> m_num_grid_cells_per_axis ds = n
        \<and> m_resolution_x ds = fdiv (double_of_int n) (fsub (xmax bbox) (xmin bbox))
        \<and> m_resolution_y ds = fdiv (double_of_int n) (fsub (ymax bbox) (ymin bbox))
        \<and> m_resolution_z ds = fdiv (double_of_int n) (fsub (zmax bbox) (zmin bbox))
        \<and> m_grid ds = replicate (nat (n * n * n)) False
        \<and> (\<forall>t. m_tls_grids ds t = replicate (nat (n * n * n)) False)
        \<and> (\<forall>t. m_tls_locked_cells ds t = []))"
    using s by (simp add: Simple_grid_locking_ds_def construct_def cube_negative Let_def)
  have 3: "(n * n * n + 2147483648) mod 4294967296 < 2147483648
      \<longrightarrow> Simple_grid_locking_ds bbox n = Inl Bad_array_new_length"
    by (simp add: Simple_grid_locking_ds_def construct_def w)
  have 4: "2147483648 \<le> (n * n * n + 2147483648) mod 4294967296
      \<longrightarrow> (\<exists>ds. Simple_grid_locking_ds bbox n = Inr ds
        \<and> m_num_grid_cells_per_axis ds = n
        \<and> m_grid ds = replicate (nat ((n * n * n + 2147483648) mod 4294967296 - 2147483648)) False
        \<and> (\<forall>t. m_tls_grids ds t
               = replicate (nat ((n * n * n + 2147483648) mod 4294967296 - 2147483648)) False)
        \<and> (\<forall>t. m_tls_locked_cells ds t = []))"
    by (simp add: Simple_grid_locking_ds_def construct_def w Let_def)
  from 1 2 3 4 show ?thesis by blast
qed

text \<open>
  C3 as stated fails: with no cells per axis the constructor returns an object with an
  empty lock table, and with a box of zero extent in \<open>x\<close> it returns an object as well,
  with an infinite resolution in \<open>x\<close> and the 1000 slots of 10 cells per axis.
\<close>

theorem construct_counterexample:
  "\<not> isl (Simple_grid_locking_ds box10 0) \<and>
   m_grid (projr (Simple_grid_locking_ds box10 0)) = [] \<and>
   \<not> isl (Simple_grid_locking_ds
            (Bbox_3 (Finite 0) (Finite 0) (Finite 0) (Finite 0) (Finite 10) (Finite 10)) 10) \<and>
   m_resolution_x (projr (Simple_grid_locking_ds
            (Bbox_3 (Finite 0) (Finite 0) (Finite 0) (Finite 0) (Finite 10) (Finite 10)) 10)) = Pos_inf \<and>
   length (m_grid (projr (Simple_grid_locking_ds
            (Bbox_3 (Finite 0) (Finite 0) (Finite 0) (Finite 0) (Finite 10) (Finite 10)) 10))) = 1000"
  by (simp add: Simple_grid_locking_ds_def construct_def num_cells_def int32_def double_eval)

text \<open>The constructor fails for \<open>- 1\<close> and returns one slot for 1. The cube of 1291 wraps to a
  negative number, and the constructor fails; the cube of 1626 wraps to 3975080, the
  cube of \<open>- 1291\<close> to 2143282125, and the constructor returns a table of that length.\<close>

theorem construct_unchecked_witness:
  "Simple_grid_locking_ds box10 (- 1) = Inl Bad_array_new_length \<and>
   m_grid (projr (Simple_grid_locking_ds box10 1)) = [False] \<and>
   Simple_grid_locking_ds box10 1291 = Inl Bad_array_new_length \<and>
   length (m_grid (projr (Simple_grid_locking_ds box10 1626))) = 3975080 \<and>
   length (m_grid (projr (Simple_grid_locking_ds box10 (- 1291)))) = 2143282125"
  using construct_unchecked [of "- 1" box10] construct_unchecked [of 1 box10]
    construct_unchecked [of 1291 box10] construct_unchecked [of 1626 box10]
    construct_unchecked [of "- 1291" box10]
  by auto

subsection \<open>What the calls keep of the construction\<close>

lemma try_lock_built: "built bbox n ds \<Longrightarrow> try_lock t c ds = Inr (ok, ds') \<Longrightarrow> built bbox n ds'"
  by (auto simp: try_lock_def built_def split: if_splits)

lemma unlock_built: "built bbox n ds \<Longrightarrow> unlock t c ds = Inr ds' \<Longrightarrow> built bbox n ds'"
  by (auto simp: unlock_def built_def split: if_splits)

lemma unlock_cells_built:
  "built bbox n ds \<Longrightarrow> unlock_cells (unlock t) cs ds = Inr ds' \<Longrightarrow> built bbox n ds'"
proof (induction cs arbitrary: ds)
  case Nil
  then show ?case by simp
next
  case (Cons c cs)
  from Cons.prems(2) obtain ds1 where u: "unlock t c ds = Inr ds1"
    and r: "unlock_cells (unlock t) cs ds1 = Inr ds'"
    by (auto split: sum.splits)
  from Cons.IH [OF unlock_built [OF Cons.prems(1) u] r] show ?case .
qed

lemma lock_cells_built:
  "built bbox n ds \<Longrightarrow> lock_cells (try_lock t) (unlock t) cells tmp ds = Inr (ok, ds')
   \<Longrightarrow> built bbox n ds'"
proof (induction cells arbitrary: tmp ds)
  case Nil
  then show ?case by simp
next
  case (Cons c cells)
  from Cons.prems(2) obtain ok1 ds1 where tl: "try_lock t c ds = Inr (ok1, ds1)"
    by (auto split: sum.splits)
  have b: "built bbox n ds1" using Cons.prems(1) tl by (rule try_lock_built)
  show ?case
  proof (cases ok1)
    case True
    with Cons.prems(2) tl
    have "lock_cells (try_lock t) (unlock t) cells (tmp @ [c]) ds1 = Inr (ok, ds')" by simp
    from Cons.IH [OF b this] show ?thesis .
  next
    case False
    with Cons.prems(2) tl have "unlock_cells (unlock t) tmp ds1 = Inr ds'"
      by (auto split: sum.splits)
    with b show ?thesis by (rule unlock_cells_built)
  qed
qed

lemma try_lock_P3_built:
  "built bbox n ds \<Longrightarrow> try_lock_P3 t p r ds = Inr (res, ds') \<Longrightarrow> built bbox n ds'"
  by (auto simp: try_lock_P3_def try_lock_around_def Let_def split: if_splits sum.splits
        dest: try_lock_built lock_cells_built)

lemma unlock_owned_built:
  "built bbox n ds \<Longrightarrow> unlock_owned (unlock t) t cs ds = Inr ds' \<Longrightarrow> built bbox n ds'"
proof (induction cs arbitrary: ds)
  case Nil
  then show ?case by simp
next
  case (Cons c cs)
  show ?case
  proof (cases "m_tls_grids ds t ! nat c")
    case True
    with Cons.prems(2) obtain ds1 where u: "unlock t c ds = Inr ds1"
      and r: "unlock_owned (unlock t) t cs ds1 = Inr ds'"
      by (auto split: if_splits sum.splits)
    from Cons.IH [OF unlock_built [OF Cons.prems(1) u] r] show ?thesis .
  next
    case False
    with Cons.prems(2) have "unlock_owned (unlock t) t cs ds = Inr ds'"
      by (auto split: if_splits)
    from Cons.IH [OF Cons.prems(1) this] show ?thesis .
  qed
qed

lemma unlock_all_built:
  assumes "built bbox n ds" and "unlock_all_tls_locked_cells t ds = Inr ds'"
  shows "built bbox n ds'"
proof -
  from assms(2) obtain ds1 where u: "unlock_owned (unlock t) t (m_tls_locked_cells ds t) ds = Inr ds1"
    and e: "ds' = ds1\<lparr>m_tls_locked_cells := (m_tls_locked_cells ds1)(t := [])\<rparr>"
    by (auto simp: unlock_all_tls_locked_cells_def unlock_all_with_def split: sum.splits)
  from unlock_owned_built [OF assms(1) u] show ?thesis by (simp add: e built_def)
qed

lemma binary_call_built:
  assumes "built bbox n ds" and "binary_call t c ds = Inr (r, ds')"
  shows "built bbox n ds'"
proof (cases c)
  case (Try_lock x)
  with assms show ?thesis
    by (auto simp: binary_call_def split: sum.splits dest: try_lock_built)
next
  case (Try_lock_P3 p rad)
  with assms(2) obtain res where "try_lock_P3 t p rad ds = Inr (res, ds')"
    by (auto simp: binary_call_def try_lock_P3_def split: sum.splits)
  with assms(1) show ?thesis by (rule try_lock_P3_built)
next
  case (Unlock x)
  with assms show ?thesis
    by (auto simp: binary_call_def split: sum.splits dest: unlock_built)
next
  case (Unlock_P3 p)
  with assms show ?thesis
    by (auto simp: binary_call_def split: sum.splits dest: unlock_built)
next
  case Unlock_all_tls_locked_cells
  with assms(2) have "unlock_all_tls_locked_cells t ds = Inr ds'"
    by (auto simp: binary_call_def unlock_all_tls_locked_cells_def split: sum.splits)
  with assms(1) show ?thesis by (rule unlock_all_built)
next
  case Check_if_all_tls_cells_are_unlocked
  with assms show ?thesis
    by (auto simp: binary_call_def split: sum.splits)
qed

lemma run_built:
  "built bbox n ds \<Longrightarrow> run binary_step calls ds = Inr (rs, ds') \<Longrightarrow> built bbox n ds'"
proof (induction calls arbitrary: ds rs)
  case Nil
  then show ?case by simp
next
  case (Cons c calls)
  from Cons.prems(2) obtain r ds1 rs1 where s: "binary_step c ds = Inr (r, ds1)"
    and r: "run binary_step calls ds1 = Inr (rs1, ds')"
    by (auto split: sum.splits)
  from s have "binary_call (fst c) (snd c) ds = Inr (r, ds1)" by (simp add: binary_step_def)
  from Cons.IH [OF binary_call_built [OF Cons.prems(1) this] r] show ?case .
qed

subsection \<open>Grid index\<close>

lemma ds10_eq:
  "ds10 = \<lparr>m_num_grid_cells_per_axis = 10,
           m_xmin = Finite 0, m_ymin = Finite 0, m_zmin = Finite 0,
           m_resolution_x = Finite 1, m_resolution_y = Finite 1, m_resolution_z = Finite 1,
           m_grid = replicate 1000 False,
           m_tls_grids = (\<lambda>_. replicate 1000 False),
           m_tls_locked_cells = (\<lambda>_. [])\<rparr>"
  by (simp add: ds10_def Simple_grid_locking_ds_def construct_def box10_def num_cells_def
        int32_def double_eval)

lemma ds10_index: "grid_index ds10 (P3 (11/2) (11/2) (11/2)) = 555"
  by (simp add: ds10_eq grid_index_def index_x_def index_y_def index_z_def axis_index_def
        row_major_def int32_def double_eval)

lemma ds10_index_outside: "grid_index ds10 (P3 (- 3) (11/2) 12) = 950"
  by (simp add: ds10_eq grid_index_def index_x_def index_y_def index_z_def axis_index_def
        row_major_def int32_def double_eval)

lemma ds10_index_far: "grid_index ds10 (P3 3000000000 (11/2) (11/2)) = 550"
  by (simp add: ds10_eq grid_index_def index_x_def index_y_def index_z_def axis_index_def
        row_major_def int32_def double_eval)

lemma ds10_0_eq:
  "ds10_0 = \<lparr>m_num_grid_cells_per_axis = 0,
           m_xmin = Finite 0, m_ymin = Finite 0, m_zmin = Finite 0,
           m_resolution_x = Finite 0, m_resolution_y = Finite 0, m_resolution_z = Finite 0,
           m_grid = [],
           m_tls_grids = (\<lambda>_. []),
           m_tls_locked_cells = (\<lambda>_. [])\<rparr>"
  by (simp add: ds10_0_def Simple_grid_locking_ds_def construct_def box10_def num_cells_def
        int32_def double_eval)

lemma ds10_0_index: "grid_index ds10_0 (P3 (11/2) (11/2) (11/2)) = 0"
  by (simp add: ds10_0_eq grid_index_def index_x_def index_y_def index_z_def axis_index_def
        row_major_def int32_def double_eval)

lemma ds10_1626_eq:
  "ds10_1626 = \<lparr>m_num_grid_cells_per_axis = 1626,
           m_xmin = Finite 0, m_ymin = Finite 0, m_zmin = Finite 0,
           m_resolution_x = Finite (5720978901644083 / 35184372088832),
           m_resolution_y = Finite (5720978901644083 / 35184372088832),
           m_resolution_z = Finite (5720978901644083 / 35184372088832),
           m_grid = replicate 3975080 False,
           m_tls_grids = (\<lambda>_. replicate 3975080 False),
           m_tls_locked_cells = (\<lambda>_. [])\<rparr>"
  by (simp add: ds10_1626_def Simple_grid_locking_ds_def construct_def box10_def num_cells_def
        int32_def double_eval)

lemma ds10_1626_index: "grid_index ds10_1626 (P3 0 0 (25/4)) = - 1608789280"
  by (simp add: ds10_1626_eq grid_index_def index_x_def index_y_def index_z_def axis_index_def
        row_major_def int32_def double_eval)

lemma ds2_ab_index_5:
  "index_x ds2_ab (P3 (3/2) (1/2) (3/2)) = 1" "index_y ds2_ab (P3 (3/2) (1/2) (3/2)) = 0"
  "index_z ds2_ab (P3 (3/2) (1/2) (3/2)) = 1" "grid_index ds2_ab (P3 (3/2) (1/2) (3/2)) = 5"
  by (simp_all add: grid_index_def index_x_def index_y_def index_z_def axis_index_def
        row_major_def int32_def double_eval ds2_ab_eq)

text \<open>
  C6 (as amended). Take an object built with \<open>n\<close> cells per axis, \<open>1 \<le> n \<le> 1290\<close>, over any
  box, after any sequence of calls of any threads. The resolution of an axis is
  \<open>n / (max - min)\<close> in the arithmetic of doubles; the index of a point on an axis is the
  coordinate less the minimum, times the resolution, converted to \<^verbatim>\<open>int\<close> and clamped
  into \<open>[0, n - 1]\<close>, whatever the point; the cell index is \<open>iz * n * n + iy * n + ix\<close>, it
  lies in \<open>[0, n * n * n - 1]\<close>, and it is the index of a slot of the lock table. Over the
  box from (0,0,0) to (10,10,10) with 10 cells per axis, the point (5.5, 5.5, 5.5) has
  index 555.
\<close>

theorem grid_index_valid:
  assumes "Simple_grid_locking_ds bbox n = Inr ds0"
    and "run binary_step calls ds0 = Inr (replies, ds)"
    and "1 \<le> n" and "n \<le> 1290"
  shows "m_resolution_x ds = fdiv (double_of_int n) (fsub (xmax bbox) (xmin bbox))
       \<and> m_resolution_y ds = fdiv (double_of_int n) (fsub (ymax bbox) (ymin bbox))
       \<and> m_resolution_z ds = fdiv (double_of_int n) (fsub (zmax bbox) (zmin bbox))
       \<and> index_x ds p = max 0 (min (to_int (fmul (fsub (to_double (point_x p)) (xmin bbox))
                                                (m_resolution_x ds))) (n - 1))
       \<and> index_y ds p = max 0 (min (to_int (fmul (fsub (to_double (point_y p)) (ymin bbox))
                                                (m_resolution_y ds))) (n - 1))
       \<and> index_z ds p = max 0 (min (to_int (fmul (fsub (to_double (point_z p)) (zmin bbox))
                                                (m_resolution_z ds))) (n - 1))
       \<and> 0 \<le> index_x ds p \<and> index_x ds p \<le> n - 1
       \<and> 0 \<le> index_y ds p \<and> index_y ds p \<le> n - 1
       \<and> 0 \<le> index_z ds p \<and> index_z ds p \<le> n - 1
       \<and> grid_index ds p = index_z ds p * n * n + index_y ds p * n + index_x ds p
       \<and> 0 \<le> grid_index ds p \<and> grid_index ds p \<le> n * n * n - 1
       \<and> int (length (m_grid ds)) = n * n * n
       \<and> in_range (m_grid ds) (grid_index ds p)
       \<and> grid_index ds10 (P3 (11/2) (11/2) (11/2)) = 555"
proof -
  from assms(1) have "built bbox n ds0"
    unfolding Simple_grid_locking_ds_def by (rule construct_built)
  from run_built [OF this assms(2)] have b: "built bbox n ds" .
  then have n: "m_num_grid_cells_per_axis ds = n" by (simp add: built_def)
  have m: "1 \<le> m_num_grid_cells_per_axis ds" "m_num_grid_cells_per_axis ds \<le> 1290"
    using assms(3,4) by (simp_all add: n)
  have r: "m_resolution_x ds = fdiv (double_of_int n) (fsub (xmax bbox) (xmin bbox))
       \<and> m_resolution_y ds = fdiv (double_of_int n) (fsub (ymax bbox) (ymin bbox))
       \<and> m_resolution_z ds = fdiv (double_of_int n) (fsub (zmax bbox) (zmin bbox))"
    using b by (simp add: built_def)
  have p: "int32 (n - 1) = n - 1" using assms(3,4) by (rule int32_pred)
  have d: "index_x ds p = max 0 (min (to_int (fmul (fsub (to_double (point_x p)) (xmin bbox))
                                                (m_resolution_x ds))) (n - 1))
       \<and> index_y ds p = max 0 (min (to_int (fmul (fsub (to_double (point_y p)) (ymin bbox))
                                                (m_resolution_y ds))) (n - 1))
       \<and> index_z ds p = max 0 (min (to_int (fmul (fsub (to_double (point_z p)) (zmin bbox))
                                                (m_resolution_z ds))) (n - 1))"
    using b by (simp add: index_x_def index_y_def index_z_def axis_index_def built_def p)
  have i: "0 \<le> index_x ds p \<and> index_x ds p \<le> n - 1"
       "0 \<le> index_y ds p \<and> index_y ds p \<le> n - 1"
       "0 \<le> index_z ds p \<and> index_z ds p \<le> n - 1"
    unfolding index_x_def index_y_def index_z_def n
    using assms(3,4) by (simp_all only: axis_index_range)
  have g: "grid_index ds p = index_z ds p * n * n + index_y ds p * n + index_x ds p"
    using grid_index_small [OF m, of p] by (simp only: n)
  have gb: "0 \<le> grid_index ds p \<and> grid_index ds p \<le> n * n * n - 1"
    using grid_index_bound [OF m, of p] by (simp only: n)
  have l: "int (length (m_grid ds)) = n * n * n"
    using b assms(3,4) by (simp add: built_def num_cells_small)
  have v: "in_range (m_grid ds) (grid_index ds p)"
    using gb l by (simp add: in_range_def)
  from r d i g gb l v ds10_index show ?thesis by blast
qed

text \<open>
  C6 as stated fails, for it speaks of every point and every object. An object built
  with no cell per axis gives every point the index 0, which is outside the range
  \<open>[0, 0 * 0 * 0 - 1]\<close> and outside the empty lock table. An object built with 1626 cells
  per axis has a lock table of 3975080 slots, and the point (0, 0, 6.25), of cell
  (0, 0, 1016), gets the product \<open>1016 * 1626 * 1626\<close> reduced to 32 bits, a negative
  index.
\<close>

theorem grid_index_counterexample:
  "Simple_grid_locking_ds box10 0 = Inr ds10_0
   \<and> m_grid ds10_0 = []
   \<and> grid_index ds10_0 (P3 (11/2) (11/2) (11/2)) = 0
   \<and> \<not> in_range (m_grid ds10_0) (grid_index ds10_0 (P3 (11/2) (11/2) (11/2)))
   \<and> \<not> grid_index ds10_0 (P3 (11/2) (11/2) (11/2)) \<le> 0 * 0 * 0 - 1
   \<and> Simple_grid_locking_ds box10 1626 = Inr ds10_1626
   \<and> length (m_grid ds10_1626) = 3975080
   \<and> grid_index ds10_1626 (P3 0 0 (25/4)) = - 1608789280
   \<and> \<not> in_range (m_grid ds10_1626) (grid_index ds10_1626 (P3 0 0 (25/4)))
   \<and> \<not> 0 \<le> grid_index ds10_1626 (P3 0 0 (25/4))"
proof -
  have a: "Simple_grid_locking_ds box10 0 = Inr ds10_0"
    by (simp add: ds10_0_def Simple_grid_locking_ds_def construct_def num_cells_def int32_def Let_def)
  have b: "Simple_grid_locking_ds box10 1626 = Inr ds10_1626"
    by (simp add: ds10_1626_def Simple_grid_locking_ds_def construct_def num_cells_def int32_def Let_def)
  have c: "m_grid ds10_0 = []" "length (m_grid ds10_1626) = 3975080"
    by (simp_all add: ds10_0_eq ds10_1626_eq)
  from a b c show ?thesis
    by (simp add: ds10_0_index ds10_1626_index in_range_def)
qed

lemma ds2_constructed: "Simple_grid_locking_ds box2 2 = Inr ds2"
  by (simp add: ds2_def Simple_grid_locking_ds_def construct_def num_cells_def int32_def Let_def)

lemma ds2_steps:
  "run binary_step [(0, Try_lock 0), (1, Try_lock 4)] ds2
     = Inr ([Success True, Success True], ds2_ab)"
proof -
  have a: "try_lock 0 0 ds2 = Inr (True, ds2_a)"
    by (simp add: ds2_a_def ds2_eq try_lock_def in_range_def)
  have b: "try_lock (Suc 0) 4 ds2_a = Inr (True, ds2_ab)"
    by (simp add: ds2_ab_def ds2_a_eq try_lock_def in_range_def eval_nat_numeral)
  show ?thesis by (simp add: binary_step_def binary_call_def a b)
qed

text \<open>On the grid of 2 cells per axis on which two threads hold a cell each, the point
  (1.5, 0.5, 1.5) has index 5. On the grid of 10 cells per axis, the point (-3, 5.5, 12)
  outside the box has the cell (0, 5, 9); the point whose \<open>x\<close> is 3000000000 has a scaled
  coordinate that does not fit an \<^verbatim>\<open>int\<close>, the conversion gives the least \<^verbatim>\<open>int\<close>, and the
  clamp gives 0.\<close>

theorem grid_index_valid_witness:
  "Simple_grid_locking_ds box2 2 = Inr ds2
   \<and> run binary_step [(0, Try_lock 0), (1, Try_lock 4)] ds2
        = Inr ([Success True, Success True], ds2_ab)
   \<and> grid_index ds2_ab (P3 (3/2) (1/2) (3/2)) = 5
   \<and> in_range (m_grid ds2_ab) (grid_index ds2_ab (P3 (3/2) (1/2) (3/2)))
   \<and> grid_index ds10 (P3 (- 3) (11/2) 12) = 950
   \<and> grid_index ds10 (P3 3000000000 (11/2) (11/2)) = 550"
proof -
  note w = grid_index_valid [OF ds2_constructed ds2_steps, of "P3 (3/2) (1/2) (3/2)"]
  have n: "(1::int) \<le> 2" "(2::int) \<le> 1290" by simp_all
  note v = w [OF n]
  have i: "in_range (m_grid ds2_ab) (grid_index ds2_ab (P3 (3/2) (1/2) (3/2)))"
    using v by blast
  have g: "grid_index ds2_ab (P3 (3/2) (1/2) (3/2))
       = index_z ds2_ab (P3 (3/2) (1/2) (3/2)) * 2 * 2 + index_y ds2_ab (P3 (3/2) (1/2) (3/2)) * 2
         + index_x ds2_ab (P3 (3/2) (1/2) (3/2))"
    using v by blast
  have e: "grid_index ds2_ab (P3 (3/2) (1/2) (3/2)) = 5"
    unfolding g by (simp add: ds2_ab_index_5)
  from i e ds2_constructed ds2_steps ds10_index_outside ds10_index_far show ?thesis by blast
qed

subsection \<open>Clearing cells\<close>

lemma cleared_Nil [simp]: "cleared [] a = a"
  by (simp add: cleared_def)

lemma cleared_Cons [simp]: "cleared (c # cs) a = cleared cs (a[nat c := False])"
  by (simp add: cleared_def)

lemma cleared_append [simp]: "cleared (cs @ ds) a = cleared ds (cleared cs a)"
  by (simp add: cleared_def)

lemma length_cleared [simp]: "length (cleared cs a) = length a"
  by (induction cs arbitrary: a) simp_all

lemma cleared_nth:
  "i < length a \<Longrightarrow> cleared cs a ! i = (a ! i \<and> i \<notin> nat ` set cs)"
proof (induction cs arbitrary: a)
  case Nil
  then show ?case by simp
next
  case (Cons c cs)
  then have "cleared cs (a[nat c := False]) ! i = (a[nat c := False] ! i \<and> i \<notin> nat ` set cs)"
    by simp
  moreover have "a[nat c := False] ! i = (a ! i \<and> i \<noteq> nat c)"
    using Cons.prems by (cases "i = nat c") simp_all
  ultimately show ?case by auto
qed

lemma cleared_absorb:
  "c \<in> set cs \<Longrightarrow> cleared cs (a[nat c := v]) = cleared cs a"
proof (induction cs arbitrary: a)
  case Nil
  then show ?case by simp
next
  case (Cons x cs)
  show ?case
  proof (cases "nat x = nat c")
    case True
    then show ?thesis by simp
  next
    case False
    with Cons.prems have "c \<in> set cs" by auto
    from Cons.IH [OF this, of "a[nat x := False]"] False
    show ?thesis by (simp add: list_update_swap)
  qed
qed

subsection \<open>Locking the cells around a point\<close>

lemma try_lock_Inr:
  assumes "try_lock t c ds = Inr (ok, ds')"
  shows "in_range (m_tls_grids ds t) c"
    and "ok \<Longrightarrow> ds' = ds \<or>
          ds' = ds\<lparr>m_grid := (m_grid ds)[nat c := True],
                   m_tls_grids := (m_tls_grids ds)(t := (m_tls_grids ds t)[nat c := True]),
                   m_tls_locked_cells := (m_tls_locked_cells ds)(t := m_tls_locked_cells ds t @ [c])\<rparr>"
    and "\<not> ok \<Longrightarrow> ds' = ds"
  using assms by (auto simp: try_lock_def split: if_splits)

lemma unlock_Inr:
  assumes "unlock t c ds = Inr ds'"
  shows "in_range (m_tls_grids ds t) c \<and> in_range (m_grid ds) c"
    and "ds' = ds\<lparr>m_grid := (m_grid ds)[nat c := False],
                   m_tls_grids := (m_tls_grids ds)(t := (m_tls_grids ds t)[nat c := False])\<rparr>"
  using assms by (auto simp: unlock_def split: if_splits)

lemma unlock_cells_Inr:
  "unlock_cells (unlock t) cs ds = Inr ds' \<Longrightarrow>
   ds' = ds\<lparr>m_grid := cleared cs (m_grid ds),
            m_tls_grids := (m_tls_grids ds)(t := cleared cs (m_tls_grids ds t))\<rparr>
   \<and> (\<forall>c \<in> set cs. in_range (m_grid ds) c)"
proof (induction cs arbitrary: ds)
  case Nil
  then show ?case by simp
next
  case (Cons c cs)
  from Cons.prems obtain ds1 where u: "unlock t c ds = Inr ds1"
    and r: "unlock_cells (unlock t) cs ds1 = Inr ds'"
    by (auto split: sum.splits)
  show ?case
    using Cons.IH [OF r] unlock_Inr [OF u] by (auto simp: fun_eq_iff in_range_def)
qed

lemma try_lock_False:
  "try_lock t c ds = Inr (False, ds') \<Longrightarrow> ds' = ds \<and> \<not> holds t c ds"
  by (auto simp: try_lock_def holds_def split: if_splits)

lemma holds_cleared:
  "m_tls_grids ds' t = cleared cs (m_tls_grids ds t) \<Longrightarrow> holds t c ds' \<Longrightarrow> holds t c ds"
  by (auto simp: holds_def in_range_def cleared_nth)

lemma lock_cells_rollback:
  "lock_cells (try_lock t) (unlock t) cells tmp ds = Inr (False, ds') \<Longrightarrow>
   \<exists>visited c rest. cells = visited @ c # rest
     \<and> (\<forall>v \<in> set visited. in_range (m_tls_grids ds t) v)
     \<and> (\<forall>v \<in> set (tmp @ visited). in_range (m_grid ds) v)
     \<and> \<not> holds t c ds'
     \<and> m_grid ds' = cleared (tmp @ visited) (m_grid ds)
     \<and> m_tls_grids ds' t = cleared (tmp @ visited) (m_tls_grids ds t)
     \<and> (\<forall>u. u \<noteq> t \<longrightarrow> m_tls_grids ds' u = m_tls_grids ds u)"
proof (induction cells arbitrary: tmp ds)
  case Nil
  then show ?case by simp
next
  case (Cons c0 cells)
  from Cons.prems obtain ok ds1 where tl: "try_lock t c0 ds = Inr (ok, ds1)"
    by (auto split: sum.splits)
  show ?case
  proof (cases ok)
    case False
    with tl have ds1: "ds1 = ds" and nh: "\<not> holds t c0 ds"
      by (auto dest: try_lock_False)
    from Cons.prems tl False ds1 have "unlock_cells (unlock t) tmp ds = Inr ds'"
      by (auto split: sum.splits)
    from unlock_cells_Inr [OF this]
    have e: "m_grid ds' = cleared (tmp @ []) (m_grid ds)
     \<and> m_tls_grids ds' t = cleared (tmp @ []) (m_tls_grids ds t)
     \<and> (\<forall>u. u \<noteq> t \<longrightarrow> m_tls_grids ds' u = m_tls_grids ds u)
     \<and> (\<forall>v \<in> set (tmp @ []). in_range (m_grid ds) v)"
      by simp
    then have "\<not> holds t c0 ds'" using nh holds_cleared [of ds' t "tmp @ []" ds c0] by blast
    with e have "c0 # cells = [] @ c0 # cells
     \<and> (\<forall>v \<in> set []. in_range (m_tls_grids ds t) v)
     \<and> (\<forall>v \<in> set (tmp @ []). in_range (m_grid ds) v)
     \<and> \<not> holds t c0 ds'
     \<and> m_grid ds' = cleared (tmp @ []) (m_grid ds)
     \<and> m_tls_grids ds' t = cleared (tmp @ []) (m_tls_grids ds t)
     \<and> (\<forall>u. u \<noteq> t \<longrightarrow> m_tls_grids ds' u = m_tls_grids ds u)"
      by simp
    then show ?thesis by blast
  next
    case True
    with Cons.prems tl
    have r: "lock_cells (try_lock t) (unlock t) cells (tmp @ [c0]) ds1 = Inr (False, ds')"
      by simp
    from Cons.IH [OF r] obtain visited c rest where
      v: "cells = visited @ c # rest"
      and vr: "\<forall>v \<in> set visited. in_range (m_tls_grids ds1 t) v"
      and vg: "\<forall>v \<in> set ((tmp @ [c0]) @ visited). in_range (m_grid ds1) v"
      and nh: "\<not> holds t c ds'"
      and g: "m_grid ds' = cleared ((tmp @ [c0]) @ visited) (m_grid ds1)"
      and b: "m_tls_grids ds' t = cleared ((tmp @ [c0]) @ visited) (m_tls_grids ds1 t)"
      and o: "\<forall>u. u \<noteq> t \<longrightarrow> m_tls_grids ds' u = m_tls_grids ds1 u"
      by blast
    have c0r: "in_range (m_tls_grids ds t) c0" using tl by (rule try_lock_Inr(1))
    have mem: "c0 \<in> set ((tmp @ [c0]) @ visited)" by simp
    from try_lock_Inr(2) [OF tl True]
    have "m_grid ds1 = m_grid ds \<or> m_grid ds1 = (m_grid ds)[nat c0 := True]"
      and "m_tls_grids ds1 t = m_tls_grids ds t \<or> m_tls_grids ds1 t = (m_tls_grids ds t)[nat c0 := True]"
      and o1: "\<forall>u. u \<noteq> t \<longrightarrow> m_tls_grids ds1 u = m_tls_grids ds u"
      by auto
    then have g1: "cleared ((tmp @ [c0]) @ visited) (m_grid ds1) = cleared ((tmp @ [c0]) @ visited) (m_grid ds)"
      and b1: "cleared ((tmp @ [c0]) @ visited) (m_tls_grids ds1 t) = cleared ((tmp @ [c0]) @ visited) (m_tls_grids ds t)"
      and l1: "length (m_tls_grids ds1 t) = length (m_tls_grids ds t)"
      and l2: "length (m_grid ds1) = length (m_grid ds)"
      using cleared_absorb [OF mem] by auto
    have "c0 # cells = (c0 # visited) @ c # rest
     \<and> (\<forall>v \<in> set (c0 # visited). in_range (m_tls_grids ds t) v)
     \<and> (\<forall>v \<in> set (tmp @ (c0 # visited)). in_range (m_grid ds) v)
     \<and> \<not> holds t c ds'
     \<and> m_grid ds' = cleared (tmp @ (c0 # visited)) (m_grid ds)
     \<and> m_tls_grids ds' t = cleared (tmp @ (c0 # visited)) (m_tls_grids ds t)
     \<and> (\<forall>u. u \<noteq> t \<longrightarrow> m_tls_grids ds' u = m_tls_grids ds u)"
      using v vr vg nh g b o c0r g1 b1 l1 l2 o1 by (simp add: in_range_def)
    then show ?thesis by blast
  qed
qed

text \<open>
  C2 (as amended). When \<open>try_lock_P3\<close> with a radius other than 0 returns failure, the
  cells of the neighbourhood split into those visited before the refused cell, the
  refused cell, and the rest. No visited cell is held by the caller afterwards and its
  slot is free, whether the cell was acquired in this call or was held before it; the
  refused cell is not held; every other cell has the slot and the ledger bit it had
  before the call. So the call leaves the caller holding no cell it did not hold
  before, and the other threads' ledgers are untouched.
\<close>

theorem try_lock_P3_failure_releases_visited:
  assumes "try_lock_P3 t p r ds = Inr ((False, idx), ds')" and "r \<noteq> 0"
  shows "(\<forall>v. holds t v ds' \<longrightarrow> holds t v ds)
    \<and> (\<forall>u. u \<noteq> t \<longrightarrow> m_tls_grids ds' u = m_tls_grids ds u)
    \<and> (\<exists>visited c rest.
      region_cells (m_num_grid_cells_per_axis ds) (index_x ds p) (index_y ds p) (index_z ds p) r
        = visited @ c # rest
      \<and> (\<forall>v \<in> set visited. \<not> holds t v ds' \<and> m_grid ds' ! nat v = False)
      \<and> \<not> holds t c ds'
      \<and> (\<forall>v. v \<notin> set visited \<longrightarrow> holds t v ds' = holds t v ds)
      \<and> (\<forall>i < length (m_grid ds). int i \<notin> set visited \<longrightarrow> m_grid ds' ! i = m_grid ds ! i))"
proof -
  let ?cells = "region_cells (m_num_grid_cells_per_axis ds) (index_x ds p) (index_y ds p) (index_z ds p) r"
  from assms have "lock_cells (try_lock t) (unlock t) ?cells [] ds = Inr (False, ds')"
    by (auto simp: try_lock_P3_def try_lock_around_def Let_def split: sum.splits)
  from lock_cells_rollback [OF this] obtain visited c rest where
    v: "?cells = visited @ c # rest"
    and vr: "\<forall>v \<in> set visited. in_range (m_tls_grids ds t) v"
    and vg: "\<forall>v \<in> set visited. in_range (m_grid ds) v"
    and nh: "\<not> holds t c ds'"
    and g: "m_grid ds' = cleared visited (m_grid ds)"
    and b: "m_tls_grids ds' t = cleared visited (m_tls_grids ds t)"
    and o: "\<forall>u. u \<noteq> t \<longrightarrow> m_tls_grids ds' u = m_tls_grids ds u"
    by auto
  have 1: "\<forall>v \<in> set visited. \<not> holds t v ds' \<and> m_grid ds' ! nat v = False"
  proof
    fix v assume m: "v \<in> set visited"
    then have "nat v \<in> nat ` set visited" by (rule imageI)
    moreover from m vr have "in_range (m_tls_grids ds t) v" by blast
    then have "nat v < length (m_tls_grids ds t)" by (simp add: in_range_def nat_less_iff)
    moreover from m vg have "in_range (m_grid ds) v" by blast
    then have "nat v < length (m_grid ds)" by (simp add: in_range_def nat_less_iff)
    ultimately show "\<not> holds t v ds' \<and> m_grid ds' ! nat v = False"
      by (simp add: holds_def g b cleared_nth)
  qed
  have 2: "\<forall>v. holds t v ds' \<longrightarrow> holds t v ds"
    using holds_cleared [OF b] by blast
  have 3: "\<forall>v. v \<notin> set visited \<longrightarrow> holds t v ds' = holds t v ds"
  proof (intro allI impI)
    fix v assume nv: "v \<notin> set visited"
    show "holds t v ds' = holds t v ds"
    proof (cases "in_range (m_tls_grids ds t) v")
      case True
      have "nat v \<notin> nat ` set visited"
      proof
        assume "nat v \<in> nat ` set visited"
        then obtain x where x: "x \<in> set visited" and e: "nat v = nat x" by blast
        from x vr have "0 \<le> x" by (auto simp: in_range_def)
        moreover from True have "0 \<le> v" by (simp add: in_range_def)
        ultimately have "v = x" using e by simp
        with x nv show False by simp
      qed
      with True show ?thesis by (auto simp: holds_def in_range_def b cleared_nth)
    next
      case False
      then show ?thesis by (auto simp: holds_def in_range_def b)
    qed
  qed
  have 4: "\<forall>i < length (m_grid ds). int i \<notin> set visited \<longrightarrow> m_grid ds' ! i = m_grid ds ! i"
  proof (intro allI impI)
    fix i assume i: "i < length (m_grid ds)" and nv: "int i \<notin> set visited"
    then have "i \<notin> nat ` set visited" using vg by (auto simp: in_range_def)
    with i show "m_grid ds' ! i = m_grid ds ! i" by (simp add: g cleared_nth)
  qed
  from v 1 nh 3 4 have "\<exists>visited c rest.
      region_cells (m_num_grid_cells_per_axis ds) (index_x ds p) (index_y ds p) (index_z ds p) r
        = visited @ c # rest
      \<and> (\<forall>v \<in> set visited. \<not> holds t v ds' \<and> m_grid ds' ! nat v = False)
      \<and> \<not> holds t c ds'
      \<and> (\<forall>v. v \<notin> set visited \<longrightarrow> holds t v ds' = holds t v ds)
      \<and> (\<forall>i < length (m_grid ds). int i \<notin> set visited \<longrightarrow> m_grid ds' ! i = m_grid ds ! i)"
    by blast
  with 2 o show ?thesis by blast
qed

lemma region2: "region_cells 2 0 0 0 1 = [0, 4, 2, 6, 1, 5, 3, 7]"
  by (simp add: region_cells_def row_major_def int32_def upto.simps)

lemma region2_101: "region_cells 2 1 0 1 1 = [0, 4, 2, 6, 1, 5, 3, 7]"
  by (simp add: region_cells_def row_major_def int32_def upto.simps)

lemma ds2_ab_index:
  "index_x ds2_ab (P3 (1/2) (1/2) (1/2)) = 0" "index_y ds2_ab (P3 (1/2) (1/2) (1/2)) = 0"
  "index_z ds2_ab (P3 (1/2) (1/2) (1/2)) = 0" "grid_index ds2_ab (P3 (1/2) (1/2) (1/2)) = 0"
  by (simp_all add: grid_index_def index_x_def index_y_def index_z_def axis_index_def
        row_major_def int32_def double_eval ds2_ab_eq)

lemma ds2_ab_region_eval:
  "try_lock_P3 0 (P3 (1/2) (1/2) (1/2)) 1 ds2_ab =
     Inr ((False, 0), ds2_ab\<lparr>m_grid := [False, False, False, False, True, False, False, False],
            m_tls_grids := (m_tls_grids ds2_ab)(0 := replicate 8 False)\<rparr>)"
  unfolding try_lock_P3_def try_lock_around_def ds2_ab_index Let_def
  by (simp add: region2 ds2_ab_eq try_lock_def unlock_def in_range_def eval_nat_numeral)

lemma ds2_ab_region:
  "try_lock_P3 0 (P3 (1/2) (1/2) (1/2)) 1 ds2_ab = Inr ((False, 0), ds2_ab_failed)"
  by (simp add: ds2_ab_failed_def ds2_ab_region_eval)

lemma ds2_ab_failed_eq:
  "ds2_ab_failed = ds2_ab\<lparr>m_grid := [False, False, False, False, True, False, False, False],
            m_tls_grids := (m_tls_grids ds2_ab)(0 := replicate 8 False)\<rparr>"
  by (simp add: ds2_ab_failed_def ds2_ab_region_eval)

text \<open>
  C2 as stated fails: in the scenario thread 0 holds cell 0 from an earlier call, the
  call fails on cell 4, which thread 1 holds, and cell 0, a cell of the neighbourhood,
  is no longer held by thread 0 afterwards.
\<close>

theorem try_lock_P3_failure_counterexample:
  "0 \<in> set (region_cells (m_num_grid_cells_per_axis ds2_ab) (index_x ds2_ab (P3 (1/2) (1/2) (1/2)))
             (index_y ds2_ab (P3 (1/2) (1/2) (1/2))) (index_z ds2_ab (P3 (1/2) (1/2) (1/2))) 1)
   \<and> holds 0 0 ds2_ab
   \<and> try_lock_P3 0 (P3 (1/2) (1/2) (1/2)) 1 ds2_ab = Inr ((False, 0), ds2_ab_failed)
   \<and> \<not> holds 0 0 ds2_ab_failed"
proof -
  have "holds 0 0 ds2_ab" "\<not> holds 0 0 ds2_ab_failed" "m_num_grid_cells_per_axis ds2_ab = 2"
    by (simp_all add: ds2_ab_failed_eq ds2_ab_eq holds_def in_range_def)
  then show ?thesis
    by (simp add: ds2_ab_region ds2_ab_index region2)
qed

theorem try_lock_P3_failure_releases_visited_witness:
  "try_lock_P3 0 (P3 (1/2) (1/2) (1/2)) 1 ds2_ab = Inr ((False, 0), ds2_ab_failed)
   \<and> (1::int) \<noteq> 0
   \<and> \<not> holds 0 4 ds2_ab_failed
   \<and> m_tls_grids ds2_ab_failed 1 = m_tls_grids ds2_ab 1"
proof -
  have "\<not> holds 0 4 ds2_ab" by (simp add: ds2_ab_eq holds_def in_range_def)
  with try_lock_P3_failure_releases_visited [OF ds2_ab_region]
  show ?thesis by (auto simp: ds2_ab_region)
qed

subsection \<open>Totality on a sized grid\<close>

lemma try_lock_sized:
  assumes "sized t ds" and "0 \<le> c" and "c < int (length (m_grid ds))"
  shows "\<exists>ok ds'. try_lock t c ds = Inr (ok, ds') \<and> sized t ds'
            \<and> length (m_grid ds') = length (m_grid ds)"
  using assms by (auto simp: try_lock_def sized_def in_range_def)

lemma unlock_sized:
  assumes "sized t ds" and "0 \<le> c" and "c < int (length (m_grid ds))"
  shows "\<exists>ds'. unlock t c ds = Inr ds' \<and> sized t ds'
            \<and> length (m_grid ds') = length (m_grid ds)"
  using assms by (auto simp: unlock_def sized_def in_range_def)

lemma unlock_cells_sized:
  assumes "sized t ds" and "\<forall>c \<in> set cs. 0 \<le> c \<and> c < int (length (m_grid ds))"
  shows "\<exists>ds'. unlock_cells (unlock t) cs ds = Inr ds' \<and> sized t ds'
            \<and> length (m_grid ds') = length (m_grid ds)"
  using assms
proof (induction cs arbitrary: ds)
  case Nil
  then show ?case by simp
next
  case (Cons c cs)
  from unlock_sized [of t ds c] Cons.prems obtain ds1 where
    u: "unlock t c ds = Inr ds1" and s: "sized t ds1" and l: "length (m_grid ds1) = length (m_grid ds)"
    by auto
  from Cons.IH [OF s] Cons.prems l obtain ds' where
    "unlock_cells (unlock t) cs ds1 = Inr ds'" "sized t ds'" "length (m_grid ds') = length (m_grid ds1)"
    by auto
  with u l show ?case by simp
qed

lemma lock_cells_sized:
  assumes "sized t ds" and "\<forall>c \<in> set cells. 0 \<le> c \<and> c < int (length (m_grid ds))"
    and "\<forall>c \<in> set tmp. 0 \<le> c \<and> c < int (length (m_grid ds))"
  shows "\<exists>ok ds'. lock_cells (try_lock t) (unlock t) cells tmp ds = Inr (ok, ds') \<and> sized t ds'
            \<and> length (m_grid ds') = length (m_grid ds)"
  using assms
proof (induction cells arbitrary: tmp ds)
  case Nil
  then show ?case by auto
next
  case (Cons c cells)
  from try_lock_sized [of t ds c] Cons.prems obtain ok ds1 where
    tl: "try_lock t c ds = Inr (ok, ds1)" and s: "sized t ds1"
    and l: "length (m_grid ds1) = length (m_grid ds)"
    by auto
  show ?case
  proof (cases ok)
    case True
    from Cons.IH [OF s, of "tmp @ [c]"] Cons.prems l obtain ok' ds' where
      "lock_cells (try_lock t) (unlock t) cells (tmp @ [c]) ds1 = Inr (ok', ds')"
      "sized t ds'" "length (m_grid ds') = length (m_grid ds1)"
      by auto
    with tl True l show ?thesis by auto
  next
    case False
    from unlock_cells_sized [OF s, of tmp] Cons.prems l obtain ds' where
      "unlock_cells (unlock t) tmp ds1 = Inr ds'" "sized t ds'"
      "length (m_grid ds') = length (m_grid ds1)"
      by auto
    with tl False l show ?thesis by auto
  qed
qed

lemma try_lock_around_index:
  "try_lock_around tlk ul p r ds = Inr ((ok, idx), ds') \<Longrightarrow> idx = grid_index ds p"
  by (auto simp: try_lock_around_def Let_def split: if_splits sum.splits)

lemma try_lock_P3_total:
  assumes s: "sized t ds" and n: "1 \<le> m_num_grid_cells_per_axis ds"
    "m_num_grid_cells_per_axis ds \<le> 1290"
  shows "\<exists>ok ds'. try_lock_P3 t p r ds = Inr ((ok, grid_index ds p), ds')"
proof -
  let ?n = "m_num_grid_cells_per_axis ds"
  from s n have len: "int (length (m_grid ds)) = ?n * ?n * ?n"
    by (simp add: sized_def num_cells_small)
  show ?thesis
  proof (cases "r = 0")
    case True
    from grid_index_bound [OF n, of p] len
    have "0 \<le> grid_index ds p" "grid_index ds p < int (length (m_grid ds))" by auto
    from try_lock_sized [OF s this] obtain ok ds' where
      "try_lock t (grid_index ds p) ds = Inr (ok, ds')" by blast
    with True show ?thesis by (simp add: try_lock_P3_def try_lock_around_def Let_def)
  next
    case False
    let ?cells = "region_cells ?n (index_x ds p) (index_y ds p) (index_z ds p) r"
    have "\<forall>c \<in> set ?cells. 0 \<le> c \<and> c < int (length (m_grid ds))"
      using region_cells_bound [OF _ n] len by auto
    from lock_cells_sized [OF s this, of "[]"] obtain ok ds' where
      "lock_cells (try_lock t) (unlock t) ?cells [] ds = Inr (ok, ds')" by auto
    with False show ?thesis by (simp add: try_lock_P3_def try_lock_around_def Let_def)
  qed
qed

lemma try_lock_P3_index:
  assumes n: "n = m_num_grid_cells_per_axis ds"
    and ix: "ix = max 0 (min (to_int (fmul (fsub (to_double (point_x p)) (m_xmin ds))
                                     (m_resolution_x ds))) (int32 (n - 1)))"
    and iy: "iy = max 0 (min (to_int (fmul (fsub (to_double (point_y p)) (m_ymin ds))
                                     (m_resolution_y ds))) (int32 (n - 1)))"
    and iz: "iz = max 0 (min (to_int (fmul (fsub (to_double (point_z p)) (m_zmin ds))
                                     (m_resolution_z ds))) (int32 (n - 1)))"
    and c: "c = int32 (int32 (int32 (int32 (iz * n) * n) + int32 (iy * n)) + ix)"
  shows "(\<forall>ok idx ds'. try_lock_P3 t p r ds = Inr ((ok, idx), ds') \<longrightarrow> idx = c)
      \<and> try_lock_P3 t p 0 ds =
          (case try_lock t c ds of Inl e \<Rightarrow> Inl e | Inr (ok, ds') \<Rightarrow> Inr ((ok, c), ds'))
      \<and> (1 \<le> n \<and> n \<le> 1290 \<longrightarrow>
           0 \<le> ix \<and> ix \<le> n - 1 \<and> 0 \<le> iy \<and> iy \<le> n - 1 \<and> 0 \<le> iz \<and> iz \<le> n - 1
           \<and> c = iz * n * n + iy * n + ix \<and> 0 \<le> c \<and> c \<le> n * n * n - 1)
      \<and> (1 \<le> n \<and> n \<le> 1290 \<and> sized t ds \<longrightarrow>
           (\<exists>ok ds'. try_lock_P3 t p r ds = Inr ((ok, c), ds')))"
proof -
  have x: "ix = index_x ds p" and y: "iy = index_y ds p" and z: "iz = index_z ds p"
    by (simp_all only: ix iy iz n index_x_def index_y_def index_z_def axis_index_def)
  have g: "c = grid_index ds p"
    by (simp only: c x y z n grid_index_def row_major_def)
  have 1: "\<forall>ok idx ds'. try_lock_P3 t p r ds = Inr ((ok, idx), ds') \<longrightarrow> idx = c"
    unfolding g try_lock_P3_def by (blast dest: try_lock_around_index)
  have 2: "try_lock_P3 t p 0 ds =
          (case try_lock t c ds of Inl e \<Rightarrow> Inl e | Inr (ok, ds') \<Rightarrow> Inr ((ok, c), ds'))"
    unfolding g by (simp add: try_lock_P3_def try_lock_around_def Let_def)
  have 3: "1 \<le> n \<and> n \<le> 1290 \<longrightarrow>
           0 \<le> ix \<and> ix \<le> n - 1 \<and> 0 \<le> iy \<and> iy \<le> n - 1 \<and> 0 \<le> iz \<and> iz \<le> n - 1
           \<and> c = iz * n * n + iy * n + ix \<and> 0 \<le> c \<and> c \<le> n * n * n - 1"
  proof
    assume a: "1 \<le> n \<and> n \<le> 1290"
    then have m: "1 \<le> m_num_grid_cells_per_axis ds" "m_num_grid_cells_per_axis ds \<le> 1290"
      by (simp_all add: n)
    have r: "0 \<le> ix \<and> ix \<le> n - 1" "0 \<le> iy \<and> iy \<le> n - 1" "0 \<le> iz \<and> iz \<le> n - 1"
      unfolding x y z index_x_def index_y_def index_z_def n
      using m by (simp_all only: axis_index_range)
    have e: "c = iz * n * n + iy * n + ix"
      unfolding g x y z n by (rule grid_index_small [OF m])
    have b: "0 \<le> c \<and> c \<le> n * n * n - 1"
      unfolding g n by (rule grid_index_bound [OF m])
    from r e b show "0 \<le> ix \<and> ix \<le> n - 1 \<and> 0 \<le> iy \<and> iy \<le> n - 1 \<and> 0 \<le> iz \<and> iz \<le> n - 1
           \<and> c = iz * n * n + iy * n + ix \<and> 0 \<le> c \<and> c \<le> n * n * n - 1"
      by blast
  qed
  have 4: "1 \<le> n \<and> n \<le> 1290 \<and> sized t ds \<longrightarrow>
           (\<exists>ok ds'. try_lock_P3 t p r ds = Inr ((ok, c), ds'))"
    unfolding g n by (blast intro: try_lock_P3_total)
  from 1 2 3 4 show ?thesis by blast
qed

text \<open>
  C8. Let \<open>n\<close> be the number of cells per axis of the object, \<open>ix\<close>, \<open>iy\<close> and \<open>iz\<close> the
  coordinates of the point less the minima, times the resolutions, converted to \<^verbatim>\<open>int\<close> and
  clamped, and \<open>c\<close> the index \<^verbatim>\<open>iz*N*N + iy*N + ix\<close> of that cell in the arithmetic of
  \<^verbatim>\<open>int\<close>. Whenever \<open>try_lock_P3\<close> returns, on success and on failure, on a new object or on
  one in use, the second component of its result is \<open>c\<close>; with radius 0 the call is the
  single-cell \<open>try_lock\<close> on \<open>c\<close>, paired with \<open>c\<close>. For \<open>1 \<le> n \<le> 1290\<close> no operation wraps:
  the three indices lie in \<open>[0, n - 1]\<close>, and \<open>c\<close> is \<open>iz * n * n + iy * n + ix\<close>, in
  \<open>[0, n * n * n - 1]\<close>; and on arrays of the constructor's size the call always returns.
\<close>

theorem try_lock_P3_returns_index:
  "let n = m_num_grid_cells_per_axis ds;
       ix = max 0 (min (to_int (fmul (fsub (to_double (point_x p)) (m_xmin ds))
                                     (m_resolution_x ds))) (int32 (n - 1)));
       iy = max 0 (min (to_int (fmul (fsub (to_double (point_y p)) (m_ymin ds))
                                     (m_resolution_y ds))) (int32 (n - 1)));
       iz = max 0 (min (to_int (fmul (fsub (to_double (point_z p)) (m_zmin ds))
                                     (m_resolution_z ds))) (int32 (n - 1)));
       c = int32 (int32 (int32 (int32 (iz * n) * n) + int32 (iy * n)) + ix)
   in (\<forall>ok idx ds'. try_lock_P3 t p r ds = Inr ((ok, idx), ds') \<longrightarrow> idx = c)
      \<and> try_lock_P3 t p 0 ds =
          (case try_lock t c ds of Inl e \<Rightarrow> Inl e | Inr (ok, ds') \<Rightarrow> Inr ((ok, c), ds'))
      \<and> (1 \<le> n \<and> n \<le> 1290 \<longrightarrow>
           0 \<le> ix \<and> ix \<le> n - 1 \<and> 0 \<le> iy \<and> iy \<le> n - 1 \<and> 0 \<le> iz \<and> iz \<le> n - 1
           \<and> c = iz * n * n + iy * n + ix \<and> 0 \<le> c \<and> c \<le> n * n * n - 1)
      \<and> (1 \<le> n \<and> n \<le> 1290 \<and> sized t ds \<longrightarrow>
           (\<exists>ok ds'. try_lock_P3 t p r ds = Inr ((ok, c), ds')))"
  unfolding Let_def by (rule try_lock_P3_index) (rule refl)+

lemma ds2_ab_scaled:
  "to_int (fmul (fsub (to_double (3/2)) (m_xmin ds2_ab)) (m_resolution_x ds2_ab)) = 1"
  "to_int (fmul (fsub (to_double (1/2)) (m_ymin ds2_ab)) (m_resolution_y ds2_ab)) = 0"
  "to_int (fmul (fsub (to_double (3/2)) (m_zmin ds2_ab)) (m_resolution_z ds2_ab)) = 1"
  "m_num_grid_cells_per_axis ds2_ab = 2"
  by (simp_all add: ds2_ab_eq double_eval)


lemma ds2_ab_refused:
  "try_lock_P3 2 (P3 (3/2) (1/2) (3/2)) 1 ds2_ab = Inr ((False, 5), ds2_ab)"
  unfolding try_lock_P3_def try_lock_around_def ds2_ab_index_5 Let_def
  by (simp add: region2_101 ds2_ab_eq try_lock_def unlock_def in_range_def eval_nat_numeral)

lemma ds2_ab_cell_5:
  "try_lock 2 5 ds2_ab = Inr (True, ds2_ab\<lparr>
       m_grid := [True, False, False, False, True, True, False, False],
       m_tls_grids := (m_tls_grids ds2_ab)(2 := [False, False, False, False, False, True, False, False]),
       m_tls_locked_cells := (m_tls_locked_cells ds2_ab)(2 := [5])\<rparr>)"
  by (simp add: ds2_ab_eq try_lock_def in_range_def eval_nat_numeral)

lemma sized_ds2_ab: "sized 2 ds2_ab"
  by (simp add: sized_def ds2_ab_eq num_cells_def int32_def)

text \<open>On the grid where thread 0 holds cell 0 and thread 1 holds cell 4, thread 2 asks for
  the point (1.5, 0.5, 1.5), of cell 5. With radius 1 the call is refused at cell 0 and
  returns false with index 5; with radius 0 it locks cell 5 and returns true with
  index 5.\<close>

theorem try_lock_P3_returns_index_witness:
  "try_lock_P3 2 (P3 (3/2) (1/2) (3/2)) 1 ds2_ab = Inr ((False, 5), ds2_ab)
   \<and> try_lock_P3 2 (P3 (3/2) (1/2) (3/2)) 0 ds2_ab = Inr ((True, 5), snd (projr (try_lock 2 5 ds2_ab)))
   \<and> try_lock 2 5 ds2_ab = Inr (True, snd (projr (try_lock 2 5 ds2_ab)))
   \<and> holds 2 5 (snd (projr (try_lock 2 5 ds2_ab)))
   \<and> sized 2 ds2_ab \<and> m_num_grid_cells_per_axis ds2_ab = 2"
proof -
  note w0 = try_lock_P3_returns_index [of ds2_ab "P3 (3/2) (1/2) (3/2)" 2 0,
      unfolded Let_def P3.sel ds2_ab_scaled]
  note w1 = try_lock_P3_returns_index [of ds2_ab "P3 (3/2) (1/2) (3/2)" 2 1,
      unfolded Let_def P3.sel ds2_ab_scaled]
  from w0 [THEN conjunct2, THEN conjunct1]
  have a: "try_lock_P3 2 (P3 (3/2) (1/2) (3/2)) 0 ds2_ab
          = Inr ((True, 5), snd (projr (try_lock 2 5 ds2_ab)))"
    by (simp add: int32_def ds2_ab_cell_5)
  from w1 [THEN conjunct2, THEN conjunct2, THEN conjunct2] sized_ds2_ab
  obtain ok ds' where b: "try_lock_P3 2 (P3 (3/2) (1/2) (3/2)) 1 ds2_ab = Inr ((ok, 5), ds')"
    by (auto simp: int32_def)
  have h: "holds 2 5 (snd (projr (try_lock 2 5 ds2_ab)))"
    unfolding ds2_ab_cell_5 by (simp add: holds_def in_range_def ds2_ab_eq)
  have n: "m_num_grid_cells_per_axis ds2_ab = 2" by (rule ds2_ab_scaled(4))
  from b have r: "try_lock_P3 2 (P3 (3/2) (1/2) (3/2)) 1 ds2_ab = Inr ((False, 5), ds2_ab)"
    by (simp add: ds2_ab_refused)
  have c: "try_lock 2 5 ds2_ab = Inr (True, snd (projr (try_lock 2 5 ds2_ab)))"
    by (simp add: ds2_ab_cell_5)
  from r a c h sized_ds2_ab n show ?thesis by blast
qed

subsection \<open>The ledger stays in order\<close>

lemma nth_clear: "i < length a \<Longrightarrow> a[j := False] ! i = (a ! i \<and> i \<noteq> j)"
  by (cases "i = j") simp_all

lemma nth_set: "i < length a \<Longrightarrow> a[j := True] ! i = (a ! i \<or> i = j)"
  by (cases "i = j") simp_all

lemma ledger_okI:
  assumes "sized t ds"
    and "\<forall>c \<in> set (m_tls_locked_cells ds t). in_range (m_tls_grids ds t) c"
    and "\<forall>i < length (m_tls_grids ds t).
        m_tls_grids ds t ! i \<longrightarrow> int i \<in> set (m_tls_locked_cells ds t)"
  shows "ledger_ok t ds"
  using assms by (simp add: ledger_ok_def)

lemma ledger_okD:
  assumes "ledger_ok t ds"
  shows "sized t ds"
    and "\<forall>c \<in> set (m_tls_locked_cells ds t). in_range (m_tls_grids ds t) c"
    and "\<forall>i < length (m_tls_grids ds t).
        m_tls_grids ds t ! i \<longrightarrow> int i \<in> set (m_tls_locked_cells ds t)"
  using assms by (simp_all add: ledger_ok_def)

lemma try_lock_ledger_ok:
  assumes "ledger_ok t ds" and "try_lock t c ds = Inr (ok, ds')"
  shows "ledger_ok t ds'"
proof (cases "ds' = ds")
  case True
  with assms show ?thesis by simp
next
  case False
  with try_lock_Inr [OF assms(2)] have ok: ok
    and ds': "ds' = ds\<lparr>m_grid := (m_grid ds)[nat c := True],
                   m_tls_grids := (m_tls_grids ds)(t := (m_tls_grids ds t)[nat c := True]),
                   m_tls_locked_cells := (m_tls_locked_cells ds)(t := m_tls_locked_cells ds t @ [c])\<rparr>"
    by auto
  note d = ledger_okD [OF assms(1)]
  from try_lock_Inr(1) [OF assms(2)] have r: "in_range (m_tls_grids ds t) c" .
  then have c: "0 \<le> c" by (simp add: in_range_def)
  show ?thesis
  proof (rule ledger_okI)
    from d(1) show "sized t ds'" by (simp add: ds' sized_def)
    from d(2) r show "\<forall>c \<in> set (m_tls_locked_cells ds' t). in_range (m_tls_grids ds' t) c"
      by (simp add: ds' in_range_def)
    show "\<forall>i < length (m_tls_grids ds' t).
        m_tls_grids ds' t ! i \<longrightarrow> int i \<in> set (m_tls_locked_cells ds' t)"
    proof (intro allI impI)
      fix i assume i: "i < length (m_tls_grids ds' t)" and b: "m_tls_grids ds' t ! i"
      from i have i': "i < length (m_tls_grids ds t)" by (simp add: ds')
      from b i' have "m_tls_grids ds t ! i \<or> i = nat c" by (simp add: ds' nth_set)
      then show "int i \<in> set (m_tls_locked_cells ds' t)"
      proof
        assume "m_tls_grids ds t ! i"
        with d(3) i' show ?thesis by (simp add: ds')
      next
        assume "i = nat c"
        with c show ?thesis by (simp add: ds')
      qed
    qed
  qed
qed

lemma unlock_ledger_ok:
  assumes "ledger_ok t ds" and "unlock t c ds = Inr ds'"
  shows "ledger_ok t ds'"
proof -
  note ds' = unlock_Inr(2) [OF assms(2)]
  note d = ledger_okD [OF assms(1)]
  show ?thesis
  proof (rule ledger_okI)
    from d(1) show "sized t ds'" by (simp add: ds' sized_def)
    from d(2) show "\<forall>c \<in> set (m_tls_locked_cells ds' t). in_range (m_tls_grids ds' t) c"
      by (simp add: ds' in_range_def)
    show "\<forall>i < length (m_tls_grids ds' t).
        m_tls_grids ds' t ! i \<longrightarrow> int i \<in> set (m_tls_locked_cells ds' t)"
    proof (intro allI impI)
      fix i assume i: "i < length (m_tls_grids ds' t)" and b: "m_tls_grids ds' t ! i"
      from i have i': "i < length (m_tls_grids ds t)" by (simp add: ds')
      from b i' have "m_tls_grids ds t ! i" by (simp add: ds' nth_clear)
      with d(3) i' show "int i \<in> set (m_tls_locked_cells ds' t)" by (simp add: ds')
    qed
  qed
qed

lemma unlock_cells_ledger_ok:
  "ledger_ok t ds \<Longrightarrow> unlock_cells (unlock t) cs ds = Inr ds' \<Longrightarrow> ledger_ok t ds'"
proof (induction cs arbitrary: ds)
  case Nil
  then show ?case by simp
next
  case (Cons c cs)
  from Cons.prems(2) obtain ds1 where u: "unlock t c ds = Inr ds1"
    and r: "unlock_cells (unlock t) cs ds1 = Inr ds'"
    by (auto split: sum.splits)
  from Cons.IH [OF unlock_ledger_ok [OF Cons.prems(1) u] r] show ?case .
qed

lemma lock_cells_ledger_ok:
  "ledger_ok t ds \<Longrightarrow> lock_cells (try_lock t) (unlock t) cells tmp ds = Inr (ok, ds') \<Longrightarrow>
   ledger_ok t ds'"
proof (induction cells arbitrary: tmp ds)
  case Nil
  then show ?case by simp
next
  case (Cons c cells)
  from Cons.prems(2) obtain ok1 ds1 where tl: "try_lock t c ds = Inr (ok1, ds1)"
    by (auto split: sum.splits)
  note l1 = try_lock_ledger_ok [OF Cons.prems(1) tl]
  show ?case
  proof (cases ok1)
    case True
    with Cons.prems(2) tl
    have "lock_cells (try_lock t) (unlock t) cells (tmp @ [c]) ds1 = Inr (ok, ds')" by simp
    from Cons.IH [OF l1 this] show ?thesis .
  next
    case False
    with Cons.prems(2) tl obtain "unlock_cells (unlock t) tmp ds1 = Inr ds'"
      by (auto split: sum.splits)
    from unlock_cells_ledger_ok [OF l1 this] show ?thesis .
  qed
qed

lemma try_lock_P3_ledger_ok:
  "ledger_ok t ds \<Longrightarrow> try_lock_P3 t p r ds = Inr (res, ds') \<Longrightarrow> ledger_ok t ds'"
  by (auto simp: try_lock_P3_def try_lock_around_def Let_def
           split: if_splits sum.splits dest: try_lock_ledger_ok lock_cells_ledger_ok)

text \<open>What the loop of \<open>unlock_all_tls_locked_cells\<close> does to the arrays.\<close>

lemma unlock_owned_effect:
  assumes "length (m_tls_grids ds t) = length (m_grid ds)"
    and "\<forall>c \<in> set cs. in_range (m_tls_grids ds t) c"
  shows "\<exists>ds'. unlock_owned (unlock t) t cs ds = Inr ds'
     \<and> length (m_grid ds') = length (m_grid ds)
     \<and> length (m_tls_grids ds' t) = length (m_tls_grids ds t)
     \<and> m_num_grid_cells_per_axis ds' = m_num_grid_cells_per_axis ds
     \<and> m_tls_locked_cells ds' = m_tls_locked_cells ds
     \<and> (\<forall>i < length (m_tls_grids ds t).
           m_tls_grids ds' t ! i = (m_tls_grids ds t ! i \<and> int i \<notin> set cs))
     \<and> (\<forall>i < length (m_grid ds).
           m_grid ds' ! i = (m_grid ds ! i \<and> \<not> (m_tls_grids ds t ! i \<and> int i \<in> set cs)))"
  using assms
proof (induction cs arbitrary: ds)
  case Nil
  then show ?case by simp
next
  case (Cons c cs)
  from Cons.prems have c: "0 \<le> c" "nat c < length (m_tls_grids ds t)" "in_range (m_tls_grids ds t) c"
    "in_range (m_grid ds) c"
    by (simp_all add: in_range_def nat_less_iff)
  have ic: "\<And>i. int i = c \<longleftrightarrow> i = nat c" using c(1) by auto
  show ?case
  proof (cases "m_tls_grids ds t ! nat c")
    case True
    define ds1 where "ds1 = ds\<lparr>m_grid := (m_grid ds)[nat c := False],
                   m_tls_grids := (m_tls_grids ds)(t := (m_tls_grids ds t)[nat c := False])\<rparr>"
    have u: "unlock t c ds = Inr ds1" using c by (simp add: unlock_def ds1_def)
    have p1: "length (m_tls_grids ds1 t) = length (m_grid ds1)"
      "\<forall>c \<in> set cs. in_range (m_tls_grids ds1 t) c"
      using Cons.prems by (simp_all add: ds1_def in_range_def)
    from Cons.IH [OF p1] obtain ds' where
      r: "unlock_owned (unlock t) t cs ds1 = Inr ds'"
      and l: "length (m_grid ds') = length (m_grid ds1)"
        "length (m_tls_grids ds' t) = length (m_tls_grids ds1 t)"
        "m_num_grid_cells_per_axis ds' = m_num_grid_cells_per_axis ds1"
        "m_tls_locked_cells ds' = m_tls_locked_cells ds1"
      and b: "\<forall>i < length (m_tls_grids ds1 t).
           m_tls_grids ds' t ! i = (m_tls_grids ds1 t ! i \<and> int i \<notin> set cs)"
      and g: "\<forall>i < length (m_grid ds1).
           m_grid ds' ! i = (m_grid ds1 ! i \<and> \<not> (m_tls_grids ds1 t ! i \<and> int i \<in> set cs))"
      by blast
    have e: "unlock_owned (unlock t) t (c # cs) ds = Inr ds'"
      using c True u r by simp
    have b': "\<forall>i < length (m_tls_grids ds t).
           m_tls_grids ds' t ! i = (m_tls_grids ds t ! i \<and> int i \<notin> set (c # cs))"
      using b by (auto simp: ds1_def ic nth_clear)
    have g': "\<forall>i < length (m_grid ds).
           m_grid ds' ! i = (m_grid ds ! i \<and> \<not> (m_tls_grids ds t ! i \<and> int i \<in> set (c # cs)))"
      using g True Cons.prems(1) by (auto simp: ds1_def ic nth_clear)
    from e l b' g' show ?thesis by (simp add: ds1_def)
  next
    case False
    from Cons.IH [OF Cons.prems(1)] Cons.prems(2) obtain ds' where
      r: "unlock_owned (unlock t) t cs ds = Inr ds'"
      and l: "length (m_grid ds') = length (m_grid ds)"
        "length (m_tls_grids ds' t) = length (m_tls_grids ds t)"
        "m_num_grid_cells_per_axis ds' = m_num_grid_cells_per_axis ds"
        "m_tls_locked_cells ds' = m_tls_locked_cells ds"
      and b: "\<forall>i < length (m_tls_grids ds t).
           m_tls_grids ds' t ! i = (m_tls_grids ds t ! i \<and> int i \<notin> set cs)"
      and g: "\<forall>i < length (m_grid ds).
           m_grid ds' ! i = (m_grid ds ! i \<and> \<not> (m_tls_grids ds t ! i \<and> int i \<in> set cs))"
      by auto
    have e: "unlock_owned (unlock t) t (c # cs) ds = Inr ds'"
      using c False r by simp
    have b': "\<forall>i < length (m_tls_grids ds t).
           m_tls_grids ds' t ! i = (m_tls_grids ds t ! i \<and> int i \<notin> set (c # cs))"
      using b False by (auto simp: ic)
    have g': "\<forall>i < length (m_grid ds).
           m_grid ds' ! i = (m_grid ds ! i \<and> \<not> (m_tls_grids ds t ! i \<and> int i \<in> set (c # cs)))"
      using g False by (auto simp: ic)
    from e l b' g' show ?thesis by simp
  qed
qed

lemma check_from_clear:
  assumes "\<forall>i < length tls. \<not> tls ! i" and "cells \<le> int (length tls)" and "0 \<le> i"
  shows "check_from tls cells i = Inr True"
  using assms
proof (induction tls cells i rule: check_from.induct)
  case (1 tls cells i)
  show ?case
  proof (cases "i < cells")
    case True
    with "1.prems" have r: "in_range tls i" "\<not> tls ! nat i"
      by (simp_all add: in_range_def nat_less_iff)
    with True "1.IH" "1.prems" have "check_from tls cells (i + 1) = Inr True" by simp
    with True r show ?thesis by (subst check_from.simps) simp
  next
    case False
    then show ?thesis by (subst check_from.simps) simp
  qed
qed

lemma unlock_all_releases:
  assumes "ledger_ok t ds"
  shows "\<exists>ds'. unlock_all_tls_locked_cells t ds = Inr ds'
     \<and> ledger_ok t ds'
     \<and> check_if_all_tls_cells_are_unlocked t ds' = Inr True
     \<and> (\<forall>i < length (m_tls_grids ds' t). \<not> m_tls_grids ds' t ! i)
     \<and> m_tls_locked_cells ds' t = []
     \<and> (\<forall>c. holds t c ds \<longrightarrow> m_grid ds' ! nat c = False)"
proof -
  from assms have p: "length (m_tls_grids ds t) = length (m_grid ds)"
    "\<forall>c \<in> set (m_tls_locked_cells ds t). in_range (m_tls_grids ds t) c"
    and li: "\<forall>i < length (m_tls_grids ds t).
        m_tls_grids ds t ! i \<longrightarrow> int i \<in> set (m_tls_locked_cells ds t)"
    and n: "int (length (m_grid ds)) = num_cells (m_num_grid_cells_per_axis ds)"
    by (simp_all add: ledger_ok_def sized_def)
  from unlock_owned_effect [OF p] obtain ds1 where
      r: "unlock_owned (unlock t) t (m_tls_locked_cells ds t) ds = Inr ds1"
      and l: "length (m_grid ds1) = length (m_grid ds)"
        "length (m_tls_grids ds1 t) = length (m_tls_grids ds t)"
        "m_num_grid_cells_per_axis ds1 = m_num_grid_cells_per_axis ds"
      and b: "\<forall>i < length (m_tls_grids ds t).
           m_tls_grids ds1 t ! i = (m_tls_grids ds t ! i \<and> int i \<notin> set (m_tls_locked_cells ds t))"
      and g: "\<forall>i < length (m_grid ds).
           m_grid ds1 ! i = (m_grid ds ! i \<and> \<not> (m_tls_grids ds t ! i \<and> int i \<in> set (m_tls_locked_cells ds t)))"
    by blast
  define ds' where "ds' = ds1\<lparr>m_tls_locked_cells := (m_tls_locked_cells ds1)(t := [])\<rparr>"
  have e: "unlock_all_tls_locked_cells t ds = Inr ds'"
    using r by (simp add: unlock_all_tls_locked_cells_def unlock_all_with_def ds'_def)
  have clear: "\<forall>i < length (m_tls_grids ds' t). \<not> m_tls_grids ds' t ! i"
    using b li l by (simp add: ds'_def)
  have ok: "ledger_ok t ds'"
  proof (rule ledger_okI)
    from l n p(1) show "sized t ds'" by (simp add: sized_def ds'_def)
    show "\<forall>c \<in> set (m_tls_locked_cells ds' t). in_range (m_tls_grids ds' t) c"
      by (simp add: ds'_def)
    from clear show "\<forall>i < length (m_tls_grids ds' t).
        m_tls_grids ds' t ! i \<longrightarrow> int i \<in> set (m_tls_locked_cells ds' t)"
      by blast
  qed
  have chk: "check_if_all_tls_cells_are_unlocked t ds' = Inr True"
    unfolding check_if_all_tls_cells_are_unlocked_def Let_def
    using clear l n p by (intro check_from_clear) (simp_all add: ds'_def)
  have rel: "\<forall>c. holds t c ds \<longrightarrow> m_grid ds' ! nat c = False"
  proof (intro allI impI)
    fix c assume h: "holds t c ds"
    then have c: "0 \<le> c" "nat c < length (m_tls_grids ds t)" "m_tls_grids ds t ! nat c"
      by (simp_all add: holds_def in_range_def nat_less_iff)
    with li have "int (nat c) \<in> set (m_tls_locked_cells ds t)" by blast
    with g c p show "m_grid ds' ! nat c = False" by (simp add: ds'_def)
  qed
  from e ok chk clear rel show ?thesis by (auto simp: ds'_def)
qed

lemma constructed_ledger_ok:
  assumes "Simple_grid_locking_ds bbox n = Inr ds"
  shows "ledger_ok t ds"
proof -
  from assms have c: "construct False bbox n = Inr ds"
    by (simp add: Simple_grid_locking_ds_def)
  from constructed(2) [OF c] show ?thesis
    by (simp add: constructed(1) [OF c] ledger_ok_def sized_def)
qed

lemma binary_call_ledger_ok:
  assumes "ledger_ok t ds" and "binary_call t c ds = Inr (r, ds')"
  shows "ledger_ok t ds'"
proof (cases c)
  case (Try_lock x)
  with assms show ?thesis
    by (auto simp: binary_call_def split: sum.splits dest: try_lock_ledger_ok)
next
  case (Try_lock_P3 p rad)
  with assms(2) obtain res where "try_lock_P3 t p rad ds = Inr (res, ds')"
    by (auto simp: binary_call_def try_lock_P3_def split: sum.splits)
  with assms(1) show ?thesis by (rule try_lock_P3_ledger_ok)
next
  case (Unlock x)
  with assms show ?thesis
    by (auto simp: binary_call_def split: sum.splits dest: unlock_ledger_ok)
next
  case (Unlock_P3 p)
  with assms show ?thesis
    by (auto simp: binary_call_def split: sum.splits dest: unlock_ledger_ok)
next
  case Unlock_all_tls_locked_cells
  with assms(2) have "unlock_all_tls_locked_cells t ds = Inr ds'"
    by (auto simp: binary_call_def unlock_all_tls_locked_cells_def split: sum.splits)
  with unlock_all_releases [OF assms(1)] show ?thesis by auto
next
  case Check_if_all_tls_cells_are_unlocked
  with assms show ?thesis
    by (auto simp: binary_call_def split: sum.splits)
qed

lemma run_ledger_ok:
  "ledger_ok t ds \<Longrightarrow> run (binary_call t) calls ds = Inr (rs, ds') \<Longrightarrow> ledger_ok t ds'"
proof (induction calls arbitrary: ds rs)
  case Nil
  then show ?case by simp
next
  case (Cons c calls)
  from Cons.prems(2) obtain r ds1 rs1 where s: "binary_call t c ds = Inr (r, ds1)"
    and r: "run (binary_call t) calls ds1 = Inr (rs1, ds')"
    by (auto split: sum.splits)
  from Cons.IH [OF binary_call_ledger_ok [OF Cons.prems(1) s] r] show ?case .
qed

text \<open>
  C5. Let the ledger of thread \<open>t\<close> be in order, as it is on a new object
  (\<open>constructed_ledger_ok\<close>), and let \<open>t\<close> make any sequence of calls that return, lock
  acquisitions in particular. Then \<open>unlock_all_tls_locked_cells\<close> returns, and
  afterwards \<open>check_if_all_tls_cells_are_unlocked\<close> returns true: the bitmap of \<open>t\<close> is
  clear, its vector of locked cells is empty, and the slot of every cell that \<open>t\<close> held
  is free.
\<close>

theorem unlock_all_after_calls:
  assumes "ledger_ok t ds" and "run (binary_call t) calls ds = Inr (replies, ds1)"
  shows "\<exists>ds2. unlock_all_tls_locked_cells t ds1 = Inr ds2
     \<and> check_if_all_tls_cells_are_unlocked t ds2 = Inr True
     \<and> (\<forall>i < length (m_tls_grids ds2 t). \<not> m_tls_grids ds2 t ! i)
     \<and> (\<forall>c. \<not> holds t c ds2)
     \<and> m_tls_locked_cells ds2 t = []
     \<and> (\<forall>c. holds t c ds1 \<longrightarrow> m_grid ds2 ! nat c = False)"
proof -
  from unlock_all_releases [OF run_ledger_ok [OF assms]] obtain ds2 where
    a: "unlock_all_tls_locked_cells t ds1 = Inr ds2"
      "check_if_all_tls_cells_are_unlocked t ds2 = Inr True"
      "m_tls_locked_cells ds2 t = []"
      "\<forall>c. holds t c ds1 \<longrightarrow> m_grid ds2 ! nat c = False"
    and b: "\<forall>i < length (m_tls_grids ds2 t). \<not> m_tls_grids ds2 t ! i"
    by blast
  from b have "\<forall>c. \<not> holds t c ds2"
    by (auto simp: holds_def in_range_def nat_less_iff)
  with a b show ?thesis by blast
qed

lemma ds2_a_index:
  "index_x ds2_a (P3 (1/2) (1/2) (1/2)) = 0" "index_y ds2_a (P3 (1/2) (1/2) (1/2)) = 0"
  "index_z ds2_a (P3 (1/2) (1/2) (1/2)) = 0" "grid_index ds2_a (P3 (1/2) (1/2) (1/2)) = 0"
  by (simp_all add: grid_index_def index_x_def index_y_def index_z_def axis_index_def
        row_major_def int32_def double_eval ds2_a_eq)

lemma ds2_a_region_eval:
  "try_lock_P3 0 (P3 (1/2) (1/2) (1/2)) 1 ds2_a =
     Inr ((True, 0),
        ds2_a\<lparr>m_grid := replicate 8 True,
            m_tls_grids := (m_tls_grids ds2_a)(0 := replicate 8 True),
            m_tls_locked_cells := (m_tls_locked_cells ds2_a)(0 := [0, 4, 2, 6, 1, 5, 3, 7])\<rparr>)"
  unfolding try_lock_P3_def try_lock_around_def ds2_a_index Let_def
  by (simp add: region2 ds2_a_eq try_lock_def unlock_def in_range_def eval_nat_numeral)

lemma ds2_a_region:
  "try_lock_P3 0 (P3 (1/2) (1/2) (1/2)) 1 ds2_a = Inr ((True, 0), ds2_locked)"
  by (simp add: ds2_locked_def ds2_a_region_eval)

lemma ds2_locked_eq:
  "ds2_locked = ds2_a\<lparr>m_grid := replicate 8 True,
            m_tls_grids := (m_tls_grids ds2_a)(0 := replicate 8 True),
            m_tls_locked_cells := (m_tls_locked_cells ds2_a)(0 := [0, 4, 2, 6, 1, 5, 3, 7])\<rparr>"
  by (simp add: ds2_locked_def ds2_a_region_eval)

lemma ds2_try_lock: "try_lock 0 0 ds2 = Inr (True, ds2_a)"
  by (simp add: ds2_a_eq ds2_eq try_lock_def in_range_def eval_nat_numeral)

lemma ds2_run:
  "run (binary_call 0) [Try_lock 0, Try_lock_P3 (P3 (1/2) (1/2) (1/2)) 1] ds2 =
     Inr ([Success True, Success_and_index True 0], ds2_locked)"
  by (simp add: binary_call_def ds2_try_lock ds2_a_region [unfolded try_lock_P3_def])

lemma ds2_ledger_ok: "ledger_ok 0 ds2"
  by (rule constructed_ledger_ok [OF ds2_constructed])

theorem unlock_all_after_calls_witness:
  "ledger_ok 0 ds2
   \<and> run (binary_call 0) [Try_lock 0, Try_lock_P3 (P3 (1/2) (1/2) (1/2)) 1] ds2 =
        Inr ([Success True, Success_and_index True 0], ds2_locked)
   \<and> holds 0 7 ds2_locked
   \<and> check_if_all_tls_cells_are_unlocked 0 (projr (unlock_all_tls_locked_cells 0 ds2_locked))
        = Inr True
   \<and> m_grid (projr (unlock_all_tls_locked_cells 0 ds2_locked)) ! nat 7 = False"
proof -
  have h: "holds 0 7 ds2_locked"
    by (simp add: ds2_locked_eq holds_def in_range_def)
  from unlock_all_after_calls [OF ds2_ledger_ok ds2_run] h
  have "check_if_all_tls_cells_are_unlocked 0 (projr (unlock_all_tls_locked_cells 0 ds2_locked))
        = Inr True
     \<and> m_grid (projr (unlock_all_tls_locked_cells 0 ds2_locked)) ! nat 7 = False"
    by auto
  with h ds2_ledger_ok ds2_run show ?thesis by simp
qed


subsection \<open>The retry loop of the owner-id class\<close>

lemma ids_try_lock_loop_free:
  assumes "in_range (m_grid ds) c" and "m_grid ds ! nat c = 0"
  shows "ids_try_lock_loop t c this_thread_id ds =
     Inr (True,
          ds\<lparr>m_grid := (m_grid ds)[nat c := this_thread_id],
             m_tls_grids := (m_tls_grids ds)(t := (m_tls_grids ds t)[nat c := True]),
             m_tls_locked_cells := (m_tls_locked_cells ds)(t := m_tls_locked_cells ds t @ [c])\<rparr>)"
  using assms by (subst ids_try_lock_loop.simps) simp

lemma ids_try_lock_loop_refused:
  assumes "in_range (m_grid ds) c" and "m_grid ds ! nat c \<noteq> 0"
    and "\<not> retry False (m_grid ds ! nat c) this_thread_id"
  shows "ids_try_lock_loop t c this_thread_id ds = Inr (False, yield ds)"
  using assms by (subst ids_try_lock_loop.simps) simp

lemma ids_try_lock_loop_retry:
  assumes "in_range (m_grid ds) c" and "m_grid ds ! nat c \<noteq> 0"
    and "retry False (m_grid ds ! nat c) this_thread_id"
  shows "ids_try_lock_loop t c this_thread_id ds =
     (if schedule ds = [] then Inl Spin_unresolved
      else ids_try_lock_loop t c this_thread_id (yield ds))"
  using assms by (subst ids_try_lock_loop.simps) simp

lemma ids_try_lock_loop_out:
  assumes "\<not> in_range (m_grid ds) c"
  shows "ids_try_lock_loop t c this_thread_id ds = Inl Out_of_bounds"
  using assms by (subst ids_try_lock_loop.simps) simp

lemmas ids_loop = ids_try_lock_loop_free ids_try_lock_loop_refused ids_try_lock_loop_retry
  ids_try_lock_loop_out

lemma ids2_eq:
  "ids2 = \<lparr>m_num_grid_cells_per_axis = 2,
           m_xmin = Finite 0, m_ymin = Finite 0, m_zmin = Finite 0,
           m_resolution_x = Finite 1, m_resolution_y = Finite 1, m_resolution_z = Finite 1,
           m_grid = replicate 8 0,
           m_tls_grids = (\<lambda>_. replicate 8 False),
           m_tls_locked_cells = (\<lambda>_. []),
           m_tls_thread_ids = (\<lambda>_. None), last_id = 0, schedule = []\<rparr>"
  by (simp add: ids2_def Simple_grid_locking_ds_with_thread_ids_def construct_def box2_def
        grid_ds.defs num_cells_def int32_def double_eval)

lemma ids2_a_eq:
  "ids2_a = \<lparr>m_num_grid_cells_per_axis = 2,
           m_xmin = Finite 0, m_ymin = Finite 0, m_zmin = Finite 0,
           m_resolution_x = Finite 1, m_resolution_y = Finite 1, m_resolution_z = Finite 1,
           m_grid = [1, 0, 0, 0, 0, 0, 0, 0],
           m_tls_grids = (\<lambda>_. replicate 8 False)
              (0 := [True, False, False, False, False, False, False, False]),
           m_tls_locked_cells = (\<lambda>_. [])(0 := [0]),
           m_tls_thread_ids = (\<lambda>_. None)(0 \<mapsto> 1), last_id = 1, schedule = []\<rparr>"
  by (simp add: ids2_a_def ids2_eq ids_try_lock_def thread_id_local_def in_range_def
        eval_nat_numeral ids_loop)

lemma ids2_ab_eq:
  "ids2_ab = \<lparr>m_num_grid_cells_per_axis = 2,
           m_xmin = Finite 0, m_ymin = Finite 0, m_zmin = Finite 0,
           m_resolution_x = Finite 1, m_resolution_y = Finite 1, m_resolution_z = Finite 1,
           m_grid = [1, 2, 0, 0, 0, 0, 0, 0],
           m_tls_grids = (\<lambda>_. replicate 8 False)
              (0 := [True, False, False, False, False, False, False, False],
               1 := [False, True, False, False, False, False, False, False]),
           m_tls_locked_cells = (\<lambda>_. [])(0 := [0], 1 := [1]),
           m_tls_thread_ids = (\<lambda>_. None)(0 \<mapsto> 1, 1 \<mapsto> 2), last_id = 2, schedule = []\<rparr>"
  by (simp add: ids2_ab_def ids2_a_eq ids_try_lock_def thread_id_local_def in_range_def
        eval_nat_numeral ids_loop)

text \<open>
  C1 (as amended). Let the caller not hold the cell, let \<open>this_thread_id\<close> be its id
  (assigned by this call if the thread had none), and let the slot hold the id of another
  thread. The loop condition then holds exactly when the
  holder's id is less than the caller's, and fails exactly when the holder's id is
  greater. When the holder's id is less, the call yields and tries again (and has not
  returned if no other thread runs); when it is greater, the call returns false after
  the one compare-and-swap.
\<close>

theorem ids_try_lock_order:
  assumes "in_range (m_tls_grids ds t) c" and "\<not> m_tls_grids ds t ! nat c"
    and "in_range (m_grid ds) c"
    and "thread_id_local t ds = (this_thread_id, ds1)"
    and "m_grid ds ! nat c = holder" and "holder \<noteq> 0" and "holder \<noteq> this_thread_id"
  shows "(retry False holder this_thread_id \<longleftrightarrow> holder < this_thread_id)
       \<and> (\<not> retry False holder this_thread_id \<longleftrightarrow> this_thread_id < holder)
       \<and> (holder < this_thread_id \<longrightarrow>
            ids_try_lock t c ds =
              (if schedule ds1 = [] then Inl Spin_unresolved
               else ids_try_lock_loop t c this_thread_id (yield ds1)))
       \<and> (this_thread_id < holder \<longrightarrow> ids_try_lock t c ds = Inr (False, yield ds1))"
proof -
  from assms(4) have g: "m_grid ds1 = m_grid ds"
    by (auto simp: thread_id_local_def split: option.splits)
  with assms have l: "in_range (m_grid ds1) c" "m_grid ds1 ! nat c \<noteq> 0"
    "m_grid ds1 ! nat c = holder"
    by simp_all
  have r: "retry False holder this_thread_id \<longleftrightarrow> holder < this_thread_id"
    by (simp add: retry_def)
  have n: "\<not> retry False holder this_thread_id \<longleftrightarrow> this_thread_id < holder"
    using assms(7) by (auto simp: retry_def)
  have e: "ids_try_lock t c ds = ids_try_lock_loop t c this_thread_id ds1"
    using assms(1,2,4) by (simp add: ids_try_lock_def)
  show ?thesis
    using r n l by (auto simp: e ids_try_lock_loop_retry ids_try_lock_loop_refused)
qed

text \<open>
  C1 as stated fails in both directions. Thread 0 (id 1) asks for cell 1, held by id 2,
  greater than its own: the call returns false at once. Thread 1 (id 2) asks for cell
  0, held by id 1, less than its own: the call does not return while nothing else runs,
  and it acquires the cell once the schedule lets the holder store 0 in the slot.
\<close>

theorem ids_try_lock_order_counterexample:
  "m_grid ids2_ab ! nat 1 = 2 \<and> m_tls_thread_ids ids2_ab 0 = Some 1
   \<and> ids_try_lock 0 1 ids2_ab = Inr (False, ids2_ab)
   \<and> m_grid ids2_ab ! nat 0 = 1 \<and> m_tls_thread_ids ids2_ab 1 = Some 2
   \<and> ids_try_lock 1 0 ids2_ab = Inl Spin_unresolved
   \<and> fst (projr (ids_try_lock 1 0 (ids2_ab\<lparr>schedule := [[(0, 0)]]\<rparr>))) = True"
  by (simp add: ids2_ab_eq ids_try_lock_def thread_id_local_def in_range_def retry_def
        yield_def apply_writes_def eval_nat_numeral ids_loop)

theorem ids_try_lock_order_witness:
  "in_range (m_tls_grids ids2_ab 1) 0 \<and> \<not> m_tls_grids ids2_ab 1 ! nat 0
   \<and> in_range (m_grid ids2_ab) 0 \<and> thread_id_local 1 ids2_ab = (2, ids2_ab)
   \<and> m_grid ids2_ab ! nat 0 = 1 \<and> (1 :: 32 word) \<noteq> 0 \<and> (1 :: 32 word) \<noteq> 2
   \<and> retry False 1 (2 :: 32 word)
   \<and> ids_try_lock 1 0 ids2_ab = Inl Spin_unresolved"
proof -
  have h: "in_range (m_tls_grids ids2_ab 1) 0" "\<not> m_tls_grids ids2_ab 1 ! nat 0"
    "in_range (m_grid ids2_ab) 0" "thread_id_local 1 ids2_ab = (2, ids2_ab)"
    "m_grid ids2_ab ! nat 0 = 1" "(1 :: 32 word) \<noteq> 0" "(1 :: 32 word) \<noteq> 2"
    by (simp_all add: ids2_ab_eq in_range_def thread_id_local_def)
  have s: "schedule ids2_ab = []" by (simp add: ids2_ab_eq)
  from ids_try_lock_order [OF h] s
  have "retry False 1 (2 :: 32 word) \<and> ids_try_lock 1 0 ids2_ab = Inl Spin_unresolved"
    by simp
  with h show ?thesis by simp
qed

subsection \<open>The three classes, used by one thread\<close>

subsection \<open>Agreement\<close>



lemma agree_Inl [simp]: "agree R (Inl e) (Inl e') \<longleftrightarrow> e = e'"
  by (auto simp: agree_def)

lemma agree_Inr [simp]: "agree R (Inr (a, x)) (Inr (b, y)) \<longleftrightarrow> a = b \<and> R x y"
  by (auto simp: agree_def)

lemma agree_void_Inl [simp]: "agree_void R (Inl e) (Inl e') \<longleftrightarrow> e = e'"
  by (auto simp: agree_void_def)

lemma agree_void_Inr [simp]: "agree_void R (Inr x) (Inr y) \<longleftrightarrow> R x y"
  by (auto simp: agree_void_def)



subsection \<open>Lifting agreement through the common code\<close>









subsection \<open>The binary class, used by one thread\<close>





subsection \<open>Binary and owner-id\<close>









subsection \<open>Binary and mutex\<close>








subsection \<open>New objects\<close>



lemma mutex2_eq:
  "mutex2 = \<lparr>m_num_grid_cells_per_axis = 2,
           m_xmin = Finite 0, m_ymin = Finite 0, m_zmin = Finite 0,
           m_resolution_x = Finite 1, m_resolution_y = Finite 1, m_resolution_z = Finite 1,
           m_grid = replicate 8 Unlocked,
           m_tls_grids = (\<lambda>_. replicate 8 False),
           m_tls_locked_cells = (\<lambda>_. [])\<rparr>"
  by (simp add: mutex2_def Simple_grid_locking_ds_with_mutex_def construct_def box2_def
        num_cells_def int32_def double_eval)






end
